theory Spec2Isabelle
  imports Main "HOL-Library.Word"
begin

section \<open>JavaScript values used by the client\<close>

text \<open>
  Exceptions are values. Every \<^verbatim>\<open>throw new Error(msg)\<close> of the sources is
  \<open>Inl (Error msg)\<close>; the runtime's own exceptions (reading a property of
  \<^verbatim>\<open>undefined\<close>, a negative repeat count, the UTF-8 encoding of an ill-formed string)
  are \<open>TypeError\<close>, \<open>RangeError\<close> and \<open>URIError\<close>.
\<close>

datatype js_error = Error string | TypeError string | RangeError string | URIError string

type_synonym byte = "8 word"

text \<open>Parsed JSON, the type of \<^verbatim>\<open>response.data\<close> and of stored objects.\<close>

datatype json =
    JNull
  | JBool bool
  | JNum int
  | JStr string
  | JArr "json list"
  | JObj "(string \<times> json) list"

text \<open>\<^verbatim>\<open>if (v)\<close> on a JSON value; \<open>None\<close> is \<^verbatim>\<open>undefined\<close>.\<close>

fun truthy :: "json \<Rightarrow> bool" where
  "truthy JNull = False"
| "truthy (JBool b) = b"
| "truthy (JNum n) = (n \<noteq> 0)"
| "truthy (JStr s) = (s \<noteq> [])"
| "truthy (JArr xs) = True"
| "truthy (JObj kvs) = True"

fun truthy_opt :: "json option \<Rightarrow> bool" where
  "truthy_opt None = False"
| "truthy_opt (Some v) = truthy v"

text \<open>Property access \<^verbatim>\<open>v.name\<close> on parsed JSON: only objects carry the properties read here.\<close>

fun property :: "json \<Rightarrow> string \<Rightarrow> json option" where
  "property (JObj kvs) k = map_of kvs k"
| "property v k = None"

text \<open>\<^verbatim>\<open>if (s)\<close> on a value of type \<^verbatim>\<open>string | null | undefined\<close>.\<close>

fun truthy_str :: "string option \<Rightarrow> bool" where
  "truthy_str None = False"
| "truthy_str (Some s) = (s \<noteq> [])"

text \<open>
  \<^verbatim>\<open>s.slice(start)\<close>: a negative start counts from the end and is clamped at 0, a
  start beyond the end gives the empty string. The integer \<open>-0\<close> is \<open>0\<close>.
\<close>

definition js_slice_from :: "string \<Rightarrow> int \<Rightarrow> string" where
  "js_slice_from s start =
     (let len = int (length s);
          from = (if start < 0 then max (len + start) 0 else min start len)
      in drop (nat from) s)"

text \<open>\<^verbatim>\<open>s.repeat(count)\<close>: a negative count raises RangeError.\<close>

definition js_repeat :: "string \<Rightarrow> int \<Rightarrow> js_error + string" where
  "js_repeat s count =
     (if count < 0 then Inl (RangeError ''Invalid count value'')
      else Inr (concat (replicate (nat count) s)))"

text \<open>
  \<^verbatim>\<open>s.split(sep)\<close> with a one-character separator: the string is cut at every
  occurrence, so the result always has at least one element.
\<close>

fun js_split :: "char \<Rightarrow> string \<Rightarrow> string list" where
  "js_split c [] = [[]]"
| "js_split c (x # xs) =
     (if x = c then [] # js_split c xs
      else (case js_split c xs of
              [] \<Rightarrow> [[x]]
            | p # ps \<Rightarrow> (x # p) # ps))"

text \<open>Array destructuring \<^verbatim>\<open>const [a, b] = xs\<close>: a missing element is \<^verbatim>\<open>undefined\<close>.\<close>

definition element :: "'a list \<Rightarrow> nat \<Rightarrow> 'a option" where
  "element xs i = (if i < length xs then Some (xs ! i) else None)"

section \<open>lib/security/encryption.ts\<close>

subsection \<open>Platform and libraries\<close>

text \<open>
  What the module imports and does not define: the process environment, expo-device,
  expo-random and CryptoJS. \<open>random_byte i j\<close> is byte \<open>j\<close> of the \<open>i\<close>-th draw from the
  random source, so a draw of \<open>n\<close> bytes always has \<open>n\<close> bytes.

  The plaintext handed to the cipher is a JavaScript string, a sequence of code units of
  type \<open>'u\<close>: 16-bit words for the strings of the language, characters where only texts
  of the Latin-1 range are stored. \<open>AES_encrypt data key iv salt\<close> is
  \<^verbatim>\<open>CryptoJS.AES.encrypt(data, key, {iv, mode: CBC, padding: Pkcs7}).toString()\<close>: with
  a key that is a string the library takes it for a passphrase and draws the 8 bytes
  \<open>salt\<close> for its key derivation, so the result depends on that draw as well.
  \<open>AES_decrypt text key iv\<close> is
  \<^verbatim>\<open>CryptoJS.AES.decrypt(text, key, {iv, ...}).toString(CryptoJS.enc.Utf8)\<close>. Both may
  throw.

  \<open>OS_is_web\<close> is \<^verbatim>\<open>Platform.OS === 'web'\<close>; the \<open>rejects\<close> predicates say which calls
  of a storage backend fail, by operation and key. \<open>NetInfo_isConnected\<close> is what
  \<^verbatim>\<open>NetInfo.fetch()\<close> reports (\<open>None\<close> when it is unknown) and \<open>redact\<close> stands for the
  regular-expression replacements of the error sanitizer.
\<close>

datatype storage_op = ReadOp | WriteOp | DeleteOp

record 'u platform_for =
  ENCRYPTION_KEY :: "string option"
  getDeviceIdAsync :: "js_error + string option"
  getRandomBytesAsync_fails :: bool
  random_byte :: "nat \<Rightarrow> nat \<Rightarrow> byte"
  SHA256 :: "string \<Rightarrow> string"
  AES_encrypt :: "'u list \<Rightarrow> string \<Rightarrow> byte list \<Rightarrow> byte list \<Rightarrow> js_error + string"
  AES_decrypt :: "string \<Rightarrow> string \<Rightarrow> byte list \<Rightarrow> js_error + 'u list"
  Hex_parse :: "string \<Rightarrow> byte list"
  OS_is_web :: bool
  SecureStore_rejects :: "storage_op \<Rightarrow> string \<Rightarrow> bool"
  AsyncStorage_rejects :: "storage_op \<Rightarrow> string \<Rightarrow> bool"
  JSON_parse :: "string \<Rightarrow> js_error + json"
  NetInfo_isConnected :: "bool option"
  redact :: "string \<Rightarrow> string"

text \<open>The storage layer and the API client store and read texts of characters.\<close>

type_synonym platform = "char platform_for"

text \<open>
  The mutable state of the process: the module variable \<open>encryptionKeyPromise\<close> (\<open>None\<close> is
  \<^verbatim>\<open>null\<close>; the promise never rejects, so \<open>Some k\<close> is a promise for the key \<open>k\<close>), the
  number of random draws made so far, and the contents of the two storage backends.
\<close>

record world =
  encryptionKeyPromise :: "string option"
  draws :: nat
  SecureStore :: "string \<rightharpoonup> string"
  AsyncStorage :: "string \<rightharpoonup> string"

subsection \<open>Hex encoding\<close>

definition hex_digit :: "nat \<Rightarrow> char" where
  "hex_digit n = ''0123456789abcdef'' ! (n mod 16)"

text \<open>
  \<^verbatim>\<open>byte.toString(16).padStart(2, '0')\<close>, joined; \<^verbatim>\<open>wordArray.toString(CryptoJS.enc.Hex)\<close>
  gives the same text.
\<close>

definition hex_of_byte :: "byte \<Rightarrow> string" where
  "hex_of_byte b = [hex_digit (unat b div 16), hex_digit (unat b mod 16)]"

definition Hex_stringify :: "byte list \<Rightarrow> string" where
  "Hex_stringify bs = concat (map hex_of_byte bs)"

text \<open>A draw of \<open>n\<close> random bytes; the state counts the draw.\<close>

definition random_bytes :: "'u platform_for \<Rightarrow> world \<Rightarrow> nat \<Rightarrow> byte list \<times> world" where
  "random_bytes P w n =
     (map (random_byte P (draws w)) [0..<n], w\<lparr>draws := Suc (draws w)\<rparr>)"

subsection \<open>Key management\<close>

text \<open>
  \<^verbatim>\<open>getEncryptionKey\<close>: the environment key when it has at least 32 characters;
  otherwise SHA-256 of device id, a random seed and a fixed salt; the default key when
  anything in that attempt throws.
\<close>

definition getEncryptionKey :: "'u platform_for \<Rightarrow> world \<Rightarrow> string \<times> world" where
  "getEncryptionKey P w =
     (let envKey = ENCRYPTION_KEY P in
      if truthy_str envKey \<and> 32 \<le> length (the envKey) then (the envKey, w)
      else
        (case getDeviceIdAsync P of
           Inl e \<Rightarrow> (''MedicalAppDefaultEncryptionKey12345678901234'', w)
         | Inr d \<Rightarrow>
             let deviceId = (if truthy_str d then the d else ''unknown-device'') in
             if getRandomBytesAsync_fails P
             then (''MedicalAppDefaultEncryptionKey12345678901234'', w)
             else
               let (randomBytes, w') = random_bytes P w 16;
                   randomSeed = Hex_stringify randomBytes
               in (SHA256 P (deviceId @ ''-'' @ randomSeed @ ''-MedicalAppSecretKey''), w')))"

text \<open>
  \<^verbatim>\<open>if (!encryptionKeyPromise) encryptionKeyPromise = getEncryptionKey();
  const key = await encryptionKeyPromise;\<close>
\<close>

definition awaitKey :: "'u platform_for \<Rightarrow> world \<Rightarrow> string \<times> world" where
  "awaitKey P w =
     (case encryptionKeyPromise w of
        Some key \<Rightarrow> (key, w)
      | None \<Rightarrow>
          let (key, w') = getEncryptionKey P w
          in (key, w'\<lparr>encryptionKeyPromise := Some key\<rparr>))"

text \<open>\<^verbatim>\<open>initEncryption\<close> replaces the promise by a new one.\<close>

definition initEncryption :: "'u platform_for \<Rightarrow> world \<Rightarrow> world" where
  "initEncryption P w =
     (let (key, w') = getEncryptionKey P w in w'\<lparr>encryptionKeyPromise := Some key\<rparr>)"

subsection \<open>encrypt and decrypt\<close>

text \<open>
  \<^verbatim>\<open>encrypt\<close>: the key, a fresh 16-byte IV, the cipher (which draws its salt), and the
  text \<^verbatim>\<open>`${ivHex}:${encryptedHex}`\<close>. Whatever the body throws is replaced by
  \<^verbatim>\<open>Error('Failed to encrypt data')\<close>.
\<close>

definition encrypt ::
  "'u platform_for \<Rightarrow> world \<Rightarrow> 'u list \<Rightarrow> (js_error + string) \<times> world" where
  "encrypt P w data =
     (let (key, w1) = awaitKey P w;
          (iv, w2) = random_bytes P w1 16;
          (salt, w3) = random_bytes P w2 8
      in case AES_encrypt P data key iv salt of
           Inl e \<Rightarrow> (Inl (Error ''Failed to encrypt data''), w3)
         | Inr encryptedHex \<Rightarrow> (Inr (Hex_stringify iv @ '':'' @ encryptedHex), w3))"

text \<open>
  The body of the \<^verbatim>\<open>try\<close> block of \<^verbatim>\<open>decrypt\<close>, after the key is there: split at
  the colons, take the first two parts, reject a missing or empty part, decrypt.
\<close>

definition decrypt_try :: "'u platform_for \<Rightarrow> string \<Rightarrow> string \<Rightarrow> js_error + 'u list" where
  "decrypt_try P key encryptedData =
     (let parts = js_split CHR '':'' encryptedData;
          ivHex = element parts 0;
          encryptedHex = element parts 1
      in if \<not> truthy_str ivHex \<or> \<not> truthy_str encryptedHex
         then Inl (Error ''Invalid encrypted data format'')
         else AES_decrypt P (the encryptedHex) key (Hex_parse P (the ivHex)))"

text \<open>
  \<^verbatim>\<open>decrypt\<close>: the \<^verbatim>\<open>catch\<close> around the whole body replaces every exception, the
  format error included, by \<^verbatim>\<open>Error('Failed to decrypt data')\<close>.
\<close>

definition decrypt ::
  "'u platform_for \<Rightarrow> world \<Rightarrow> string \<Rightarrow> (js_error + 'u list) \<times> world" where
  "decrypt P w encryptedData =
     (let (key, w1) = awaitKey P w
      in case decrypt_try P key encryptedData of
           Inl e \<Rightarrow> (Inl (Error ''Failed to decrypt data''), w1)
         | Inr s \<Rightarrow> (Inr s, w1))"

subsection \<open>maskSensitiveData\<close>

text \<open>
  \<^verbatim>\<open>maskSensitiveData(value, visibleChars)\<close>, with \<open>visibleChars\<close> an integer:
  \<^verbatim>\<open>if (!value) return ''; if (value.length <= visibleChars) return value;
  return '*'.repeat(value.length - visibleChars) + value.slice(-visibleChars)\<close>.
\<close>

definition maskSensitiveData :: "string \<Rightarrow> int \<Rightarrow> js_error + string" where
  "maskSensitiveData val visibleChars =
     (if val = [] then Inr []
      else if int (length val) \<le> visibleChars then Inr val
      else
        let visible = js_slice_from val (- visibleChars)
        in case js_repeat ''*'' (int (length val) - visibleChars) of
             Inl e \<Rightarrow> Inl e
           | Inr masked \<Rightarrow> Inr (masked @ visible))"

text \<open>
  The initialisation vector that \<open>encrypt\<close> draws when it is called in state \<open>w\<close>, and the
  salt that the cipher draws after it.
\<close>

definition encrypt_iv :: "'u platform_for \<Rightarrow> world \<Rightarrow> byte list" where
  "encrypt_iv P w = fst (random_bytes P (snd (awaitKey P w)) 16)"

definition encrypt_salt :: "'u platform_for \<Rightarrow> world \<Rightarrow> byte list" where
  "encrypt_salt P w =
     fst (random_bytes P (snd (random_bytes P (snd (awaitKey P w)) 16)) 8)"

text \<open>
  What the module relies on in the library's cipher: the text it returns is not empty and
  has no colon (it is Base64), and decrypting that text with the passphrase it was
  encrypted with returns the plaintext, whatever IV option is passed (with a passphrase
  the library derives key and IV from passphrase and salt).
\<close>

definition cipher_inverts :: "'u platform_for \<Rightarrow> bool" where
  "cipher_inverts P =
     (\<forall>data key iv salt text.
        AES_encrypt P data key iv salt = Inr text \<longrightarrow>
          text \<noteq> [] \<and> CHR '':'' \<notin> set text
          \<and> (\<forall>iv'. AES_decrypt P text key iv' = Inr data))"

section \<open>lib/storage/secure-storage.ts\<close>

subsection \<open>The two backends\<close>

text \<open>
  expo-secure-store and AsyncStorage, as key-value maps whose calls either fail (for the
  operations and keys the platform rejects) or act on the map. Reading a missing key gives
  \<^verbatim>\<open>null\<close>; removing a missing key is not an error.
\<close>

definition SecureStore_getItemAsync ::
  "platform \<Rightarrow> world \<Rightarrow> string \<Rightarrow> js_error + string option" where
  "SecureStore_getItemAsync P w k =
     (if SecureStore_rejects P ReadOp k then Inl (Error ''SecureStore: getItemAsync failed'')
      else Inr (SecureStore w k))"

definition SecureStore_setItemAsync ::
  "platform \<Rightarrow> world \<Rightarrow> string \<Rightarrow> string \<Rightarrow> (js_error + unit) \<times> world" where
  "SecureStore_setItemAsync P w k v =
     (if SecureStore_rejects P WriteOp k
      then (Inl (Error ''SecureStore: setItemAsync failed''), w)
      else (Inr (), w\<lparr>SecureStore := (SecureStore w)(k \<mapsto> v)\<rparr>))"

definition SecureStore_deleteItemAsync ::
  "platform \<Rightarrow> world \<Rightarrow> string \<Rightarrow> (js_error + unit) \<times> world" where
  "SecureStore_deleteItemAsync P w k =
     (if SecureStore_rejects P DeleteOp k
      then (Inl (Error ''SecureStore: deleteItemAsync failed''), w)
      else (Inr (), w\<lparr>SecureStore := (SecureStore w)(k := None)\<rparr>))"

definition AsyncStorage_getItem ::
  "platform \<Rightarrow> world \<Rightarrow> string \<Rightarrow> js_error + string option" where
  "AsyncStorage_getItem P w k =
     (if AsyncStorage_rejects P ReadOp k then Inl (Error ''AsyncStorage: getItem failed'')
      else Inr (AsyncStorage w k))"

definition AsyncStorage_setItem ::
  "platform \<Rightarrow> world \<Rightarrow> string \<Rightarrow> string \<Rightarrow> (js_error + unit) \<times> world" where
  "AsyncStorage_setItem P w k v =
     (if AsyncStorage_rejects P WriteOp k
      then (Inl (Error ''AsyncStorage: setItem failed''), w)
      else (Inr (), w\<lparr>AsyncStorage := (AsyncStorage w)(k \<mapsto> v)\<rparr>))"

definition AsyncStorage_removeItem ::
  "platform \<Rightarrow> world \<Rightarrow> string \<Rightarrow> (js_error + unit) \<times> world" where
  "AsyncStorage_removeItem P w k =
     (if AsyncStorage_rejects P DeleteOp k
      then (Inl (Error ''AsyncStorage: removeItem failed''), w)
      else (Inr (), w\<lparr>AsyncStorage := (AsyncStorage w)(k := None)\<rparr>))"

subsection \<open>SecureStorage\<close>

definition KEY_PREFIX :: string where
  "KEY_PREFIX = ''medical_app_secure_''"

text \<open>The \<^verbatim>\<open>try\<close> block of \<^verbatim>\<open>setItem\<close>.\<close>

definition setItem_try ::
  "platform \<Rightarrow> world \<Rightarrow> string \<Rightarrow> string \<Rightarrow> (js_error + unit) \<times> world" where
  "setItem_try P w key v =
     (let prefixedKey = KEY_PREFIX @ key in
      if \<not> OS_is_web P then SecureStore_setItemAsync P w prefixedKey v
      else
        (case encrypt P w v of
           (Inl e, w1) \<Rightarrow> (Inl e, w1)
         | (Inr encryptedValue, w1) \<Rightarrow> AsyncStorage_setItem P w1 prefixedKey encryptedValue))"

text \<open>\<^verbatim>\<open>setItem\<close>: any exception becomes the storage error that names the key.\<close>

definition setItem ::
  "platform \<Rightarrow> world \<Rightarrow> string \<Rightarrow> string \<Rightarrow> (js_error + unit) \<times> world" where
  "setItem P w key v =
     (case setItem_try P w key v of
        (Inl e, w1) \<Rightarrow> (Inl (Error (''Failed to securely store data for key: '' @ key)), w1)
      | (Inr u, w1) \<Rightarrow> (Inr u, w1))"

text \<open>
  The \<^verbatim>\<open>try\<close> block of \<^verbatim>\<open>getItem\<close>: the native store as it is; on the web the stored
  text is decrypted, and a missing or empty stored text is \<^verbatim>\<open>null\<close>.
\<close>

definition getItem_try ::
  "platform \<Rightarrow> world \<Rightarrow> string \<Rightarrow> (js_error + string option) \<times> world" where
  "getItem_try P w key =
     (let prefixedKey = KEY_PREFIX @ key in
      if \<not> OS_is_web P then (SecureStore_getItemAsync P w prefixedKey, w)
      else
        (case AsyncStorage_getItem P w prefixedKey of
           Inl e \<Rightarrow> (Inl e, w)
         | Inr encryptedValue \<Rightarrow>
             if \<not> truthy_str encryptedValue then (Inr None, w)
             else
               (case decrypt P w (the encryptedValue) of
                  (Inl e, w1) \<Rightarrow> (Inl e, w1)
                | (Inr s, w1) \<Rightarrow> (Inr (Some s), w1))))"

text \<open>\<^verbatim>\<open>getItem\<close>: the \<^verbatim>\<open>catch\<close> logs the exception and returns \<^verbatim>\<open>null\<close>.\<close>

definition getItem ::
  "platform \<Rightarrow> world \<Rightarrow> string \<Rightarrow> (js_error + string option) \<times> world" where
  "getItem P w key =
     (case getItem_try P w key of
        (Inl e, w1) \<Rightarrow> (Inr None, w1)
      | (Inr v, w1) \<Rightarrow> (Inr v, w1))"

text \<open>The \<^verbatim>\<open>try\<close> block of \<^verbatim>\<open>deleteItem\<close>.\<close>

definition deleteItem_try ::
  "platform \<Rightarrow> world \<Rightarrow> string \<Rightarrow> (js_error + unit) \<times> world" where
  "deleteItem_try P w key =
     (let prefixedKey = KEY_PREFIX @ key in
      if \<not> OS_is_web P then SecureStore_deleteItemAsync P w prefixedKey
      else AsyncStorage_removeItem P w prefixedKey)"

definition deleteItem ::
  "platform \<Rightarrow> world \<Rightarrow> string \<Rightarrow> (js_error + unit) \<times> world" where
  "deleteItem P w key =
     (case deleteItem_try P w key of
        (Inl e, w1) \<Rightarrow> (Inl (Error (''Failed to delete secure data for key: '' @ key)), w1)
      | (Inr u, w1) \<Rightarrow> (Inr u, w1))"

text \<open>
  The \<^verbatim>\<open>try\<close> block of \<^verbatim>\<open>getObject\<close>:
  \<^verbatim>\<open>return jsonValue ? JSON.parse(jsonValue) : null\<close>. \<open>JNull\<close> is \<^verbatim>\<open>null\<close>.
\<close>

definition getObject_try ::
  "platform \<Rightarrow> world \<Rightarrow> string \<Rightarrow> (js_error + json) \<times> world" where
  "getObject_try P w key =
     (case getItem P w key of
        (Inl e, w1) \<Rightarrow> (Inl e, w1)
      | (Inr jsonValue, w1) \<Rightarrow>
          if truthy_str jsonValue then (JSON_parse P (the jsonValue), w1)
          else (Inr JNull, w1))"

definition getObject ::
  "platform \<Rightarrow> world \<Rightarrow> string \<Rightarrow> (js_error + json) \<times> world" where
  "getObject P w key =
     (case getObject_try P w key of
        (Inl e, w1) \<Rightarrow> (Inr JNull, w1)
      | (Inr v, w1) \<Rightarrow> (Inr v, w1))"

definition hasKey :: "platform \<Rightarrow> world \<Rightarrow> string \<Rightarrow> (js_error + bool) \<times> world" where
  "hasKey P w key =
     (case getItem P w key of
        (Inl e, w1) \<Rightarrow> (Inl e, w1)
      | (Inr v, w1) \<Rightarrow> (Inr (v \<noteq> None), w1))"


definition backend_rejects :: "platform \<Rightarrow> storage_op \<Rightarrow> string \<Rightarrow> bool" where
  "backend_rejects P op k =
     (if OS_is_web P then AsyncStorage_rejects P op k else SecureStore_rejects P op k)"

section \<open>lib/utils/error-handlers.ts\<close>

text \<open>The normalized error of \<^verbatim>\<open>core/types\<close>; \<open>errors = None\<close> when the property is absent.\<close>

record ApiError =
  status :: int
  code :: json
  message :: string
  errors :: "json option"

text \<open>
  A request configuration. \<open>headers = None\<close> is a configuration without headers object.
  \<open>retry\<close> is the property \<^verbatim>\<open>_retry\<close> (absent reads as false). \<open>environment\<close> is the
  property of that name on the configuration object itself: \<^verbatim>\<open>AxiosRequestConfig\<close>
  declares none, so it is \<open>None\<close> unless a caller adds one.
\<close>

record environment_info =
  version :: string

record AxiosRequestConfig =
  url :: string
  headers :: "(string \<rightharpoonup> string) option"
  retry :: bool
  environment :: "environment_info option"

record AxiosResponse =
  response_status :: int
  response_data :: json
  response_config :: AxiosRequestConfig

text \<open>
  An error of axios: the configuration of the request, the response when the server
  answered, whether a request object is attached, and the library's error code.
\<close>

record AxiosError =
  error_config :: "AxiosRequestConfig option"
  error_response :: "AxiosResponse option"
  error_request :: bool
  error_code :: "string option"

text \<open>
  What a promise of the client is rejected with: an \<^verbatim>\<open>Error\<close> instance that is not
  an axios error, an axios error, or a plain object of the shape \<open>ApiError\<close>.
\<close>

datatype rejection = Thrown js_error | Axios AxiosError | Api ApiError

fun error_message :: "js_error \<Rightarrow> string" where
  "error_message (Error m) = m"
| "error_message (TypeError m) = m"
| "error_message (RangeError m) = m"
| "error_message (URIError m) = m"

definition getDefaultMessageForStatus :: "int \<Rightarrow> string" where
  "getDefaultMessageForStatus st =
     (if st = 400 then ''The request was invalid. Please check your information and try again.''
      else if st = 401 then ''You need to be logged in to access this. Please log in and try again.''
      else if st = 403 then ''You don't have permission to access this resource.''
      else if st = 404 then ''The requested information could not be found.''
      else if st = 408 \<or> st = 504 then ''The server took too long to respond. Please try again later.''
      else if st = 409 then ''There was a conflict with the current state of the resource.''
      else if st = 422 then ''The provided information could not be processed.''
      else if st = 429 then ''Too many requests. Please try again later.''
      else if st = 500 \<or> st = 502 \<or> st = 503 then ''The server encountered an error. Please try again later.''
      else ''An unexpected error occurred. Please try again.'')"

text \<open>
  \<^verbatim>\<open>sanitizeErrorMessage\<close>: an empty message becomes a fixed text, a string goes through
  the ten pattern replacements (\<open>redact\<close>, the runtime's regular expressions), and any
  other value has no \<^verbatim>\<open>replace\<close> method.
\<close>

definition sanitizeErrorMessage :: "platform \<Rightarrow> json \<Rightarrow> js_error + string" where
  "sanitizeErrorMessage P m =
     (if \<not> truthy m then Inr ''An unknown error occurred''
      else (case m of
              JStr s \<Rightarrow> Inr (redact P s)
            | _ \<Rightarrow> Inl (TypeError ''sanitizedMessage.replace is not a function'')))"

text \<open>\<^verbatim>\<open>typeof v === 'string'\<close> and \<^verbatim>\<open>typeof v === 'object'\<close>.\<close>

fun is_string :: "json \<Rightarrow> bool" where
  "is_string (JStr s) = True"
| "is_string v = False"

fun is_object :: "json \<Rightarrow> bool" where
  "is_object JNull = True"
| "is_object (JArr xs) = True"
| "is_object (JObj kvs) = True"
| "is_object v = False"

text \<open>\<^verbatim>\<open>a === b\<close> on parsed JSON: primitives by value, arrays and objects never (each is its own object).\<close>

fun strict_eq :: "json \<Rightarrow> json \<Rightarrow> bool" where
  "strict_eq JNull JNull = True"
| "strict_eq (JBool a) (JBool b) = (a = b)"
| "strict_eq (JNum a) (JNum b) = (a = b)"
| "strict_eq (JStr a) (JStr b) = (a = b)"
| "strict_eq a b = False"

text \<open>
  The part of \<^verbatim>\<open>handleApiError\<close> that fills status, code, message and errors from an
  axios error; the message is still unsanitized.
\<close>

definition fromAxiosError :: "AxiosError \<Rightarrow> int \<times> json \<times> json \<times> json option" where
  "fromAxiosError e =
     (let code0 = JStr ''UNKNOWN_ERROR'';
          message0 = JStr ''An unexpected error occurred while communicating with the server.'';
          (st, c, m, es) =
            (case error_response e of
               Some resp \<Rightarrow>
                 let st = response_status resp;
                     responseData = response_data resp;
                     rcode = property responseData ''code'';
                     rerror = property responseData ''error'';
                     rmessage = property responseData ''message'';
                     rerrors = property responseData ''errors'';
                     c = (if \<not> truthy responseData then code0
                          else if truthy_opt rcode then the rcode
                          else if truthy_opt rerror
                            then (if is_string (the rerror) then the rerror else JStr ''API_ERROR'')
                          else code0);
                     m = (if \<not> truthy responseData then message0
                          else if truthy_opt rmessage then the rmessage
                          else if truthy_opt rerror \<and> is_string (the rerror) then the rerror
                          else message0);
                     es = (if truthy responseData \<and> truthy_opt rerrors \<and> is_object (the rerrors)
                           then rerrors else None);
                     m' = (if \<not> truthy m \<or> strict_eq m c
                           then JStr (getDefaultMessageForStatus st) else m)
                 in (st, c, m', es)
             | None \<Rightarrow>
                 if error_request e
                 then (0, JStr ''NETWORK_ERROR'',
                       JStr ''Network error. Please check your internet connection.'', None)
                 else (500, code0, message0, None));
          c' = (if \<not> truthy c
                then (if truthy_str (error_code e) then JStr (the (error_code e)) else JStr ''API_ERROR'')
                else c)
      in (st, c', m, es))"

text \<open>
  \<^verbatim>\<open>handleApiError\<close>. A plain object is copied over the default by \<^verbatim>\<open>Object.assign\<close>;
  the last step sanitizes the message and can throw.
\<close>

definition handleApiError :: "platform \<Rightarrow> rejection \<Rightarrow> js_error + ApiError" where
  "handleApiError P err =
     (let (st, c, m, es) =
            (case err of
               Axios e \<Rightarrow> fromAxiosError e
             | Thrown e \<Rightarrow>
                 (500, JStr ''CLIENT_ERROR'', JStr (error_message e), None)
             | Api a \<Rightarrow> (status a, code a, JStr (message a), errors a))
      in case sanitizeErrorMessage P m of
           Inl e \<Rightarrow> Inl e
         | Inr msg \<Rightarrow> Inr \<lparr>status = st, code = c, message = msg, errors = es\<rparr>)"

section \<open>lib/api/api-client.ts\<close>

subsection \<open>The request interceptor\<close>

definition set_header :: "AxiosRequestConfig \<Rightarrow> string \<Rightarrow> string \<Rightarrow> AxiosRequestConfig" where
  "set_header cfg name v =
     (case headers cfg of
        None \<Rightarrow> cfg
      | Some h \<Rightarrow> cfg\<lparr>headers := Some (h(name \<mapsto> v))\<rparr>)"

text \<open>
  The fulfilled handler of the request interceptor. Its parameter is named \<^verbatim>\<open>config\<close>
  and hides the imported module of that name, so \<^verbatim>\<open>config.environment.version\<close> reads
  the property \<^verbatim>\<open>environment\<close> of the request configuration; when that is undefined
  the read of \<^verbatim>\<open>version\<close> throws. The first \<^verbatim>\<open>getItem\<close> is inside a \<^verbatim>\<open>try\<close> whose
  handler only logs; the second is not.
\<close>

definition requestFulfilled ::
  "platform \<Rightarrow> world \<Rightarrow> AxiosRequestConfig \<Rightarrow> (rejection + AxiosRequestConfig) \<times> world" where
  "requestFulfilled P w cfg =
     (if NetInfo_isConnected P \<noteq> Some True
      then (Inl (Thrown (Error ''No network connection available'')), w)
      else
        let (token, w1) = getItem P w ''auth_token'';
            cfg1 = (case token of
                      Inl e \<Rightarrow> cfg
                    | Inr t \<Rightarrow>
                        if truthy_str t \<and> headers cfg \<noteq> None
                        then set_header cfg ''Authorization'' (''Bearer '' @ the t)
                        else cfg)
        in if headers cfg1 = None then (Inr cfg1, w1)
           else
             (case environment cfg1 of
                None \<Rightarrow>
                  (Inl (Thrown (TypeError
                     ''Cannot read properties of undefined (reading 'version')'')), w1)
              | Some env \<Rightarrow>
                  let cfg2 = set_header cfg1 ''X-App-Version'' (version env);
                      (userId, w2) = getItem P w1 ''user_id''
                  in (case userId of
                        Inl e \<Rightarrow> (Inl (Thrown e), w2)
                      | Inr u \<Rightarrow>
                          if truthy_str u
                          then (Inr (set_header cfg2 ''X-User-ID'' (the u)), w2)
                          else (Inr cfg2, w2))))"

subsection \<open>State of the client\<close>

text \<open>
  One call of \<^verbatim>\<open>refreshToken()\<close>, that is one promise: where the call stands, and the
  handlers suspended on the promise in the order they began to wait.
\<close>

datatype refresh_phase =
    ReadingRefreshToken
  | Posting string
  | StoringToken string
  | Resolved string
  | Rejected rejection

record refresh_call =
  phase :: refresh_phase
  waiters :: "nat list"

text \<open>
  One request made through the client, from the call to the settling of the promise
  the caller holds. The flag of \<open>AwaitingRefresh\<close> says whether the handler waits in the
  branch \<^verbatim>\<open>if (isRefreshingToken)\<close> (a follower) or after starting the refresh itself.
\<close>

datatype request_state =
    Intercepting AxiosRequestConfig
  | InFlight AxiosRequestConfig
  | AwaitingRefresh AxiosRequestConfig bool
  | DeletingAuthToken
  | DeletingRefreshToken
  | Done "rejection + AxiosResponse"

text \<open>
  The module's two variables, every promise \<^verbatim>\<open>refreshToken()\<close> has returned, the
  refresh tokens posted to the refresh endpoint so far, the requests, and the storage.
\<close>

record client =
  isRefreshingToken :: bool
  tokenRefreshPromise :: "nat option"
  promises :: "refresh_call list"
  refreshPosts :: "string list"
  requests :: "request_state list"
  storage :: world

text \<open>What the network adapter reports for a dispatched request.\<close>

datatype adapter_result = HttpResponse int json | NoResponse "string option"

text \<open>
  The events of the run loop: a new call of the client; the request interceptor of a
  request; the adapter's report for a request; the three completions inside a refresh (the
  stored refresh token is read, the refresh endpoint answers, the new token is stored);
  the completion of the storage deletion a handler waits for.
\<close>

datatype event =
    Request AxiosRequestConfig
  | Intercept nat
  | Deliver nat adapter_result
  | RefreshRead nat
  | RefreshResponse nat "rejection + string"
  | RefreshStored nat
  | StorageDone nat

subsection \<open>The response interceptor and refreshToken\<close>

definition AUTH_REQUIRED :: rejection where
  "AUTH_REQUIRED =
     Api \<lparr>status = 401, code = JStr ''AUTH_REQUIRED'',
          message = ''Authentication required. Please log in again.'', errors = None\<rparr>"

text \<open>\<^verbatim>\<open>return Promise.reject(handleApiError(error))\<close>; an exception of the call rejects as well.\<close>

definition normalized :: "platform \<Rightarrow> rejection \<Rightarrow> request_state" where
  "normalized P err =
     Done (Inl (case handleApiError P err of Inl e \<Rightarrow> Thrown e | Inr a \<Rightarrow> Api a))"

definition set_request :: "client \<Rightarrow> nat \<Rightarrow> request_state \<Rightarrow> client" where
  "set_request c i r = c\<lparr>requests := (requests c)[i := r]\<rparr>"

text \<open>The \<^verbatim>\<open>finally\<close> block.\<close>

definition finallyBlock :: "client \<Rightarrow> client" where
  "finallyBlock c = c\<lparr>isRefreshingToken := False, tokenRefreshPromise := None\<rparr>"

text \<open>
  \<^verbatim>\<open>isRefreshingToken = true; tokenRefreshPromise = refreshToken();
  const newToken = await tokenRefreshPromise\<close>: a new promise, with the handler of request
  \<open>i\<close> as its first waiter.
\<close>

definition startRefresh :: "client \<Rightarrow> nat \<Rightarrow> AxiosRequestConfig \<Rightarrow> client" where
  "startRefresh c i cfg =
     set_request
       (c\<lparr>isRefreshingToken := True,
          tokenRefreshPromise := Some (length (promises c)),
          promises := promises c @ [\<lparr>phase = ReadingRefreshToken, waiters = [i]\<rparr>]\<rparr>)
       i (AwaitingRefresh cfg False)"

text \<open>
  \<^verbatim>\<open>originalRequest.headers['Authorization'] = `Bearer ${newToken}`;
  return apiClient(originalRequest)\<close> and the \<^verbatim>\<open>finally\<close> block: the request starts over
  at the request interceptor, and the caller's promise follows it.
\<close>

definition replay :: "client \<Rightarrow> nat \<Rightarrow> AxiosRequestConfig \<Rightarrow> string \<Rightarrow> client" where
  "replay c i cfg newToken =
     finallyBlock (set_request c i
       (Intercepting (set_header cfg ''Authorization'' (''Bearer '' @ newToken))))"

text \<open>
  The handler of request \<open>i\<close> continues after \<^verbatim>\<open>await tokenRefreshPromise\<close>. A rejected
  promise enters the \<^verbatim>\<open>catch\<close> block, which first waits for the deletion of the access
  token. A follower with a usable token replays; a follower whose token is empty, or whose
  request has no headers, leaves the \<^verbatim>\<open>if\<close> and goes on to start a refresh.
\<close>

definition resume :: "client \<Rightarrow> nat \<Rightarrow> rejection + string \<Rightarrow> client" where
  "resume c i outcome =
     (case element (requests c) i of
        Some (AwaitingRefresh cfg follower) \<Rightarrow>
          (case outcome of
             Inl r \<Rightarrow> set_request c i DeletingAuthToken
           | Inr newToken \<Rightarrow>
               if follower
               then (if newToken \<noteq> [] \<and> headers cfg \<noteq> None
                     then replay c i cfg newToken
                     else startRefresh c i cfg)
               else replay c i cfg newToken)
      | _ \<Rightarrow> c)"

text \<open>
  A promise settles: its waiters continue one after the other, in the order they began to
  wait, before any other event is handled.
\<close>

definition settle :: "client \<Rightarrow> nat \<Rightarrow> rejection + string \<Rightarrow> client" where
  "settle c p outcome =
     (case element (promises c) p of
        None \<Rightarrow> c
      | Some call \<Rightarrow>
          let settled = \<lparr>phase = (case outcome of Inl r \<Rightarrow> Rejected r | Inr t \<Rightarrow> Resolved t),
                         waiters = []\<rparr>;
              c1 = c\<lparr>promises := (promises c)[p := settled]\<rparr>
          in foldl (\<lambda>c' i. resume c' i outcome) c1 (waiters call))"

text \<open>
  The rejected handler of the response interceptor, up to its first \<^verbatim>\<open>await\<close>, for the
  request \<open>i\<close>. \<open>cfg\<close> is \<^verbatim>\<open>error.config\<close> and \<open>st\<close> is \<^verbatim>\<open>error.response?.status\<close>.
  Waiting for a promise that is already settled continues at once.
\<close>

definition responseRejected :: "platform \<Rightarrow> client \<Rightarrow> nat \<Rightarrow> rejection \<Rightarrow> client" where
  "responseRejected P c i err =
     (let originalRequest = (case err of Axios e \<Rightarrow> error_config e | _ \<Rightarrow> None);
          st = (case err of
                  Axios e \<Rightarrow> map_option response_status (error_response e)
                | _ \<Rightarrow> None)
      in if st = Some 401
         then
           (case originalRequest of
              None \<Rightarrow>
                set_request c i (Done (Inl (Thrown (TypeError
                  ''Cannot read properties of undefined (reading '_retry')''))))
            | Some cfg0 \<Rightarrow>
                if retry cfg0 then set_request c i (normalized P err)
                else
                  let cfg = cfg0\<lparr>retry := True\<rparr> in
                  if isRefreshingToken c
                  then
                    (case tokenRefreshPromise c of
                       None \<Rightarrow> startRefresh c i cfg
                     | Some p \<Rightarrow>
                         (case element (promises c) p of
                            None \<Rightarrow> startRefresh c i cfg
                          | Some call \<Rightarrow>
                              (case phase call of
                                 Resolved t \<Rightarrow>
                                   resume (set_request c i (AwaitingRefresh cfg True)) i (Inr t)
                               | Rejected r \<Rightarrow>
                                   resume (set_request c i (AwaitingRefresh cfg True)) i (Inl r)
                               | _ \<Rightarrow>
                                   set_request
                                     (c\<lparr>promises := (promises c)
                                          [p := call\<lparr>waiters := waiters call @ [i]\<rparr>]\<rparr>)
                                     i (AwaitingRefresh cfg True))))
                  else startRefresh c i cfg)
         else set_request c i (normalized P err))"

text \<open>
  axios settles a dispatched request: a status from 200 to 299 resolves and passes the
  fulfilled handler of the response interceptor, which returns the response unchanged;
  anything else is an axios error for the rejected handler. The library's error code of
  a response error differs between versions of axios and is left unset here;
  \<^verbatim>\<open>handleApiError\<close> would read it only if the code were still empty.
\<close>

definition deliver :: "platform \<Rightarrow> client \<Rightarrow> nat \<Rightarrow> adapter_result \<Rightarrow> client" where
  "deliver P c i res =
     (case element (requests c) i of
        Some (InFlight cfg) \<Rightarrow>
          (case res of
             HttpResponse st body \<Rightarrow>
               let resp = \<lparr>response_status = st, response_data = body, response_config = cfg\<rparr> in
               if 200 \<le> st \<and> st < 300 then set_request c i (Done (Inr resp))
               else responseRejected P c i
                      (Axios \<lparr>error_config = Some cfg, error_response = Some resp,
                              error_request = True, error_code = None\<rparr>)
           | NoResponse ec \<Rightarrow>
               responseRejected P c i
                 (Axios \<lparr>error_config = Some cfg, error_response = None,
                         error_request = True, error_code = ec\<rparr>))
      | _ \<Rightarrow> c)"

text \<open>
  The request interceptor of request \<open>i\<close> runs. A rejection skips the dispatch and
  reaches the rejected handler of the response interceptor.
\<close>

definition intercept :: "platform \<Rightarrow> client \<Rightarrow> nat \<Rightarrow> client" where
  "intercept P c i =
     (case element (requests c) i of
        Some (Intercepting cfg) \<Rightarrow>
          (case requestFulfilled P (storage c) cfg of
             (Inl err, w) \<Rightarrow> responseRejected P (c\<lparr>storage := w\<rparr>) i err
           | (Inr cfg', w) \<Rightarrow> set_request (c\<lparr>storage := w\<rparr>) i (InFlight cfg'))
      | _ \<Rightarrow> c)"

text \<open>
  \<^verbatim>\<open>refreshToken\<close>, one completion at a time. Without a stored refresh token the call
  throws before any request is made; otherwise the token is posted. The response body is
  taken to carry the string \<^verbatim>\<open>token\<close> that the return type \<^verbatim>\<open>Promise<string>\<close> promises.
  The \<^verbatim>\<open>catch\<close> block rethrows what it caught.
\<close>

definition refreshRead :: "platform \<Rightarrow> client \<Rightarrow> nat \<Rightarrow> client" where
  "refreshRead P c p =
     (case element (promises c) p of
        Some call \<Rightarrow>
          (case phase call of
             ReadingRefreshToken \<Rightarrow>
               (case getItem P (storage c) ''refresh_token'' of
                  (Inl e, w) \<Rightarrow> settle (c\<lparr>storage := w\<rparr>) p (Inl (Thrown e))
                | (Inr rt, w) \<Rightarrow>
                    if \<not> truthy_str rt
                    then settle (c\<lparr>storage := w\<rparr>) p
                           (Inl (Thrown (Error ''No refresh token available'')))
                    else c\<lparr>storage := w,
                           refreshPosts := refreshPosts c @ [the rt],
                           promises := (promises c)[p := call\<lparr>phase := Posting (the rt)\<rparr>]\<rparr>)
           | _ \<Rightarrow> c)
      | None \<Rightarrow> c)"

definition refreshResponse :: "client \<Rightarrow> nat \<Rightarrow> rejection + string \<Rightarrow> client" where
  "refreshResponse c p res =
     (case element (promises c) p of
        Some call \<Rightarrow>
          (case phase call of
             Posting rt \<Rightarrow>
               (case res of
                  Inl err \<Rightarrow> settle c p (Inl err)
                | Inr token \<Rightarrow>
                    c\<lparr>promises := (promises c)[p := call\<lparr>phase := StoringToken token\<rparr>]\<rparr>)
           | _ \<Rightarrow> c)
      | None \<Rightarrow> c)"

definition refreshStored :: "platform \<Rightarrow> client \<Rightarrow> nat \<Rightarrow> client" where
  "refreshStored P c p =
     (case element (promises c) p of
        Some call \<Rightarrow>
          (case phase call of
             StoringToken token \<Rightarrow>
               (case setItem P (storage c) ''auth_token'' token of
                  (Inl e, w) \<Rightarrow> settle (c\<lparr>storage := w\<rparr>) p (Inl (Thrown e))
                | (Inr u, w) \<Rightarrow> settle (c\<lparr>storage := w\<rparr>) p (Inr token))
           | _ \<Rightarrow> c)
      | None \<Rightarrow> c)"

text \<open>
  The \<^verbatim>\<open>catch\<close> block of the handler of request \<open>i\<close>: the two deletions, then the
  rejection with \<open>AUTH_REQUIRED\<close>. A deletion that throws ends the handler with that
  exception. The \<^verbatim>\<open>finally\<close> block runs on every way out.
\<close>

definition storageDone :: "platform \<Rightarrow> client \<Rightarrow> nat \<Rightarrow> client" where
  "storageDone P c i =
     (case element (requests c) i of
        Some DeletingAuthToken \<Rightarrow>
          (case deleteItem P (storage c) ''auth_token'' of
             (Inl e, w) \<Rightarrow> finallyBlock (set_request (c\<lparr>storage := w\<rparr>) i (Done (Inl (Thrown e))))
           | (Inr u, w) \<Rightarrow> set_request (c\<lparr>storage := w\<rparr>) i DeletingRefreshToken)
      | Some DeletingRefreshToken \<Rightarrow>
          (case deleteItem P (storage c) ''refresh_token'' of
             (Inl e, w) \<Rightarrow> finallyBlock (set_request (c\<lparr>storage := w\<rparr>) i (Done (Inl (Thrown e))))
           | (Inr u, w) \<Rightarrow> finallyBlock (set_request (c\<lparr>storage := w\<rparr>) i (Done (Inl AUTH_REQUIRED))))
      | _ \<Rightarrow> c)"

subsection \<open>The run loop\<close>

definition step :: "platform \<Rightarrow> client \<Rightarrow> event \<Rightarrow> client" where
  "step P c ev =
     (case ev of
        Request cfg \<Rightarrow> c\<lparr>requests := requests c @ [Intercepting cfg]\<rparr>
      | Intercept i \<Rightarrow> intercept P c i
      | Deliver i res \<Rightarrow> deliver P c i res
      | RefreshRead p \<Rightarrow> refreshRead P c p
      | RefreshResponse p res \<Rightarrow> refreshResponse c p res
      | RefreshStored p \<Rightarrow> refreshStored P c p
      | StorageDone i \<Rightarrow> storageDone P c i)"

definition run :: "platform \<Rightarrow> client \<Rightarrow> event list \<Rightarrow> client" where
  "run P c evs = foldl (step P) c evs"

subsection \<open>The outcome of a refresh\<close>

text \<open>
  The result with which an event completes the call \<open>p\<close> of \<^verbatim>\<open>refreshToken\<close>, if it
  does. The call throws when no refresh token is stored, when the request to the refresh
  endpoint fails and when the new token cannot be stored; it returns the new token once
  that is stored.
\<close>

definition refresh_outcome ::
  "platform \<Rightarrow> client \<Rightarrow> nat \<Rightarrow> event \<Rightarrow> (rejection + string) option" where
  "refresh_outcome P c p ev =
     (case element (promises c) p of
        None \<Rightarrow> None
      | Some call \<Rightarrow>
          (case ev of
             RefreshRead q \<Rightarrow>
               (case phase call of
                  ReadingRefreshToken \<Rightarrow>
                    if q \<noteq> p then None
                    else (case fst (getItem P (storage c) ''refresh_token'') of
                            Inl e \<Rightarrow> Some (Inl (Thrown e))
                          | Inr rt \<Rightarrow>
                              if truthy_str rt then None
                              else Some (Inl (Thrown (Error ''No refresh token available''))))
                | _ \<Rightarrow> None)
           | RefreshResponse q res \<Rightarrow>
               (case phase call of
                  Posting rt \<Rightarrow>
                    (case res of
                       Inl err \<Rightarrow> if q \<noteq> p then None else Some (Inl err)
                     | Inr token \<Rightarrow> None)
                | _ \<Rightarrow> None)
           | RefreshStored q \<Rightarrow>
               (case phase call of
                  StoringToken token \<Rightarrow>
                    if q \<noteq> p then None
                    else (case fst (setItem P (storage c) ''auth_token'' token) of
                            Inl e \<Rightarrow> Some (Inl (Thrown e))
                          | Inr u \<Rightarrow> Some (Inr token))
                | _ \<Rightarrow> None)
           | _ \<Rightarrow> None))"

text \<open>The call of \<^verbatim>\<open>refreshToken\<close> that an event belongs to.\<close>

fun refresh_index :: "event \<Rightarrow> nat option" where
  "refresh_index (RefreshRead p) = Some p"
| "refresh_index (RefreshResponse p res) = Some p"
| "refresh_index (RefreshStored p) = Some p"
| "refresh_index ev = None"

subsection \<open>The single-flight discipline\<close>

text \<open>A refresh is outstanding until its promise is resolved or rejected.\<close>

fun pending :: "refresh_phase \<Rightarrow> bool" where
  "pending (Resolved t) = False"
| "pending (Rejected r) = False"
| "pending ph = True"

text \<open>The phases that are reached only after the refresh token was posted and accepted.\<close>

fun posted :: "refresh_phase \<Rightarrow> bool" where
  "posted (Posting rt) = True"
| "posted (StoringToken t) = True"
| "posted (Resolved t) = True"
| "posted ph = False"

fun waiting :: "request_state \<Rightarrow> bool" where
  "waiting (AwaitingRefresh cfg f) = True"
| "waiting r = False"

fun has_headers :: "request_state \<Rightarrow> bool" where
  "has_headers (Intercepting cfg) = (headers cfg \<noteq> None)"
| "has_headers (InFlight cfg) = (headers cfg \<noteq> None)"
| "has_headers (AwaitingRefresh cfg f) = (headers cfg \<noteq> None)"
| "has_headers r = True"

text \<open>The handler of the request waits for a refresh or is inside its \<^verbatim>\<open>catch\<close> block.\<close>

fun in_handler :: "request_state \<Rightarrow> bool" where
  "in_handler (AwaitingRefresh cfg f) = True"
| "in_handler DeletingAuthToken = True"
| "in_handler DeletingRefreshToken = True"
| "in_handler r = False"

text \<open>
  The client between two episodes: the flag is clear, no refresh is outstanding, no
  handler waits for a refresh or is still inside its \<^verbatim>\<open>catch\<close> block, and every
  request carries a headers object, as every configuration that axios builds does.
\<close>

definition quiet :: "client \<Rightarrow> bool" where
  "quiet c =
     (\<not> isRefreshingToken c
      \<and> list_all (\<lambda>call. \<not> pending (phase call)) (promises c)
      \<and> list_all (\<lambda>r. \<not> in_handler r) (requests c)
      \<and> list_all has_headers (requests c))"

text \<open>The event is the first 401 of a request: a 401 for a request not yet retried.\<close>

definition first_401 :: "client \<Rightarrow> event \<Rightarrow> bool" where
  "first_401 c ev =
     (case ev of
        Deliver i (HttpResponse st body) \<Rightarrow>
          st = 401 \<and> (case element (requests c) i of
                        Some (InFlight cfg) \<Rightarrow> \<not> retry cfg
                      | _ \<Rightarrow> False)
      | _ \<Rightarrow> False)"

text \<open>
  The events of one invalid-token episode, whose refresh is the call \<open>n\<close> of
  \<^verbatim>\<open>refreshToken\<close>: a first 401 arrives before that call was made or while the flag
  \<^verbatim>\<open>isRefreshingToken\<close> is set; the refresh endpoint does not answer with an empty
  token; a new request carries a headers object.
\<close>

definition in_window :: "nat \<Rightarrow> client \<Rightarrow> event \<Rightarrow> bool" where
  "in_window n c ev =
     (case ev of
        Deliver i res \<Rightarrow>
          \<not> first_401 c ev \<or> length (promises c) \<le> n \<or> isRefreshingToken c
      | RefreshResponse p res \<Rightarrow> (case res of Inl r \<Rightarrow> True | Inr t \<Rightarrow> t \<noteq> [])
      | Request cfg \<Rightarrow> headers cfg \<noteq> None
      | _ \<Rightarrow> True)"

text \<open>A property of state and event holds at every step of a run.\<close>

fun throughout ::
  "(client \<Rightarrow> event \<Rightarrow> bool) \<Rightarrow> platform \<Rightarrow> client \<Rightarrow> event list \<Rightarrow> bool" where
  "throughout Q P c [] = True"
| "throughout Q P c (ev # evs) = (Q c ev \<and> throughout Q P (step P c ev) evs)"

definition timely :: "nat \<Rightarrow> platform \<Rightarrow> client \<Rightarrow> event list \<Rightarrow> bool" where
  "timely n P c evs = throughout (in_window n) P c evs"

text \<open>
  What the request of a waiting handler becomes when the promise settles: a rejection
  takes it into the \<^verbatim>\<open>catch\<close> block, a token replays it with that token.
\<close>

fun resumed :: "rejection + string \<Rightarrow> request_state \<Rightarrow> request_state" where
  "resumed (Inl r) (AwaitingRefresh cfg f) = DeletingAuthToken"
| "resumed (Inr t) (AwaitingRefresh cfg f) =
     Intercepting (set_header cfg ''Authorization'' (''Bearer '' @ t))"
| "resumed outcome r = r"

text \<open>
  The request \<open>i\<close> is served by the refresh \<open>n\<close>, which is the last call made. While
  that refresh is outstanding, the handler of the request is among the waiters of its
  promise and the request is marked as retried. Once the refresh is resolved, the request
  is replayed, marked as retried, with the token of that refresh; once it is rejected, the
  handler is in its \<^verbatim>\<open>catch\<close> block.
\<close>

definition served :: "nat \<Rightarrow> client \<Rightarrow> nat \<Rightarrow> bool" where
  "served n c i =
     (length (promises c) = Suc n
      \<and> (case element (promises c) n of
            None \<Rightarrow> False
          | Some call \<Rightarrow>
              (case phase call of
                 Resolved t \<Rightarrow>
                   (case element (requests c) i of
                      Some (Intercepting cfg) \<Rightarrow>
                        retry cfg
                        \<and> (case headers cfg of
                              Some h \<Rightarrow> h ''Authorization'' = Some (''Bearer '' @ t)
                            | None \<Rightarrow> False)
                    | _ \<Rightarrow> False)
               | Rejected r \<Rightarrow> element (requests c) i = Some DeletingAuthToken
               | _ \<Rightarrow>
                   i \<in> set (waiters call)
                   \<and> (case element (requests c) i of
                         Some (AwaitingRefresh cfg f) \<Rightarrow> retry cfg
                       | _ \<Rightarrow> False))))"

text \<open>The promise of the refresh \<open>n\<close> is settled with the outcome, and nobody waits on it.\<close>

definition settled_with :: "nat \<Rightarrow> client \<Rightarrow> rejection + string \<Rightarrow> bool" where
  "settled_with n c outcome =
     (case element (promises c) n of
        Some call \<Rightarrow>
          phase call = (case outcome of Inl r \<Rightarrow> Rejected r | Inr t \<Rightarrow> Resolved t)
          \<and> waiters call = []
      | None \<Rightarrow> False)"

text \<open>
  Single flight, for one step of an episode that began with \<open>n\<close> calls of
  \<^verbatim>\<open>refreshToken\<close> and \<open>m\<close> posts to the refresh endpoint behind it. After the step:
  at most one more call and one more post were made; a request whose first 401 the step
  delivers is served by the one refresh; when the step completes that refresh, every
  waiting request is resumed with its outcome (replayed with the new token, or taken into
  the \<^verbatim>\<open>catch\<close> block) and no other request changes, and the refresh token was posted
  exactly once if the outcome is a token; when it does not, every waiting request goes on
  waiting; and a refresh token is posted only if one is stored.
\<close>

definition disciplined :: "nat \<Rightarrow> nat \<Rightarrow> platform \<Rightarrow> client \<Rightarrow> event \<Rightarrow> bool" where
  "disciplined n m P c ev =
     (let c' = step P c ev in
        length (promises c') \<le> Suc n \<and> length (refreshPosts c') \<le> Suc m
      \<and> (case ev of Deliver i res \<Rightarrow> first_401 c ev \<longrightarrow> served n c' i | _ \<Rightarrow> True)
      \<and> (case refresh_outcome P c n ev of
            None \<Rightarrow>
              list_all (\<lambda>j. waiting (requests c ! j) \<longrightarrow> requests c' ! j = requests c ! j)
                [0..<length (requests c)]
          | Some outcome \<Rightarrow>
              requests c' = map (resumed outcome) (requests c) \<and> settled_with n c' outcome
              \<and> (case outcome of Inl r \<Rightarrow> True | Inr t \<Rightarrow> length (refreshPosts c') = Suc m))
      \<and> (refreshPosts c' = refreshPosts c
          \<or> (case fst (getItem P (storage c) ''refresh_token'') of
                Inr (Some rt) \<Rightarrow> rt \<noteq> [] \<and> refreshPosts c' = refreshPosts c @ [rt]
              | _ \<Rightarrow> False)))"

text \<open>
  What holds of the client throughout such an episode. Before the refresh is started the
  client is quiet. Once the call \<open>n\<close> is made it is the last one; while it is outstanding
  the flag is set, and while the flag is set the variable holds its promise; no token is
  posted before the stored refresh token was read; the token being stored, or resolved
  with, is not empty; a handler waits only while the refresh is outstanding and is inside
  its \<^verbatim>\<open>catch\<close> block only when the refresh was rejected; and every waiting handler is
  among the waiters of the promise.
\<close>

fun agrees :: "refresh_phase \<Rightarrow> request_state \<Rightarrow> bool" where
  "agrees ph (AwaitingRefresh cfg f) = pending ph"
| "agrees ph DeletingAuthToken = (case ph of Rejected r \<Rightarrow> True | _ \<Rightarrow> False)"
| "agrees ph DeletingRefreshToken = (case ph of Rejected r \<Rightarrow> True | _ \<Rightarrow> False)"
| "agrees ph r = True"

definition awaited :: "request_state list \<Rightarrow> nat set \<Rightarrow> bool" where
  "awaited rs W = list_all (\<lambda>j. \<not> waiting (rs ! j) \<or> j \<in> W) [0..<length rs]"

definition before_refresh :: "nat \<Rightarrow> nat \<Rightarrow> client \<Rightarrow> bool" where
  "before_refresh n m c =
     (quiet c \<and> length (promises c) = n \<and> length (refreshPosts c) = m)"

definition in_episode :: "nat \<Rightarrow> nat \<Rightarrow> client \<Rightarrow> refresh_call \<Rightarrow> bool" where
  "in_episode n m c call =
     (length (promises c) = Suc n \<and> promises c ! n = call
      \<and> list_all (\<lambda>call. \<not> pending (phase call)) (take n (promises c))
      \<and> length (refreshPosts c) \<le> Suc m
      \<and> list_all has_headers (requests c)
      \<and> (\<not> pending (phase call) \<or> isRefreshingToken c)
      \<and> (\<not> isRefreshingToken c \<or> tokenRefreshPromise c = Some n)
      \<and> (phase call \<noteq> ReadingRefreshToken \<or> length (refreshPosts c) = m)
      \<and> (\<not> posted (phase call) \<or> length (refreshPosts c) = Suc m)
      \<and> phase call \<noteq> StoringToken [] \<and> phase call \<noteq> Resolved []
      \<and> list_all (agrees (phase call)) (requests c)
      \<and> awaited (requests c) (set (waiters call)))"

definition episode :: "nat \<Rightarrow> nat \<Rightarrow> client \<Rightarrow> bool" where
  "episode n m c =
     (before_refresh n m c \<or> length (promises c) = Suc n \<and> in_episode n m c (promises c ! n))"

text \<open>
  An outcome on which no follower leaves the \<^verbatim>\<open>if\<close>: a rejection, or a token that is
  not empty for requests that carry a headers object.
\<close>

definition usable :: "rejection + string \<Rightarrow> request_state list \<Rightarrow> bool" where
  "usable outcome rs =
     (case outcome of Inl r \<Rightarrow> True | Inr t \<Rightarrow> t \<noteq> [] \<and> list_all has_headers rs)"

text \<open>The code of the normalized error a request ended with, if it ended with one.\<close>

definition outcome_code :: "request_state \<Rightarrow> json option" where
  "outcome_code r = (case r of Done (Inl (Api a)) \<Rightarrow> Some (code a) | _ \<Rightarrow> None)"

section \<open>A platform for running the model\<close>

text \<open>
  A concrete platform on which the definitions can be evaluated. Its cipher is a
  stand-in with the interface of the library's. The output is a non-empty text without a
  colon, as Base64 is: a fixed prefix, the salt the library drew, a mark of the passphrase
  and the plaintext with its colons escaped; like the library's, it does not depend on the
  IV option. Decryption under the same passphrase returns the plaintext. A text written
  under another passphrase decrypts to the empty string without an exception, which is
  what the library mostly does with such a text; a text that is no ciphertext at all
  raises.
\<close>

fun escape :: "string \<Rightarrow> string" where
  "escape [] = []"
| "escape (c # cs) =
     (if c = CHR '':'' then ''%3A'' else if c = CHR ''%'' then ''%25'' else [c]) @ escape cs"

fun unescape :: "string \<Rightarrow> string" where
  "unescape [] = []"
| "unescape (c # cs) =
     (if c = CHR ''%''
      then (if take 2 cs = ''3A'' then CHR '':'' else CHR ''%'') # unescape (drop 2 cs)
      else c # unescape cs)"

definition key_tag :: "string \<Rightarrow> string" where
  "key_tag key = map (\<lambda>c. if c = CHR '':'' then CHR ''_'' else c) (take 4 (key @ ''====''))"

definition salt_text :: "byte list \<Rightarrow> string" where
  "salt_text salt = Hex_stringify (take 8 (salt @ replicate 8 0))"

definition sample_encrypt ::
  "string \<Rightarrow> string \<Rightarrow> byte list \<Rightarrow> byte list \<Rightarrow> js_error + string" where
  "sample_encrypt data key iv salt =
     Inr (''U2F'' @ salt_text salt @ key_tag key @ escape data)"

definition sample_decrypt :: "string \<Rightarrow> string \<Rightarrow> byte list \<Rightarrow> js_error + string" where
  "sample_decrypt text key iv =
     (if take 3 text = ''U2F'' \<and> 23 \<le> length text
      then (if take 4 (drop 19 text) = key_tag key then Inr (unescape (drop 23 text))
            else Inr [])
      else Inl (Error ''Malformed UTF-8 data''))"

definition sample_parse :: "string \<Rightarrow> js_error + json" where
  "sample_parse s =
     (if s = ''null'' then Inr JNull
      else if s = ''true'' then Inr (JBool True)
      else if s = ''{}'' then Inr (JObj [])
      else Inl (Error ''SyntaxError: Unexpected token''))"

definition sample_platform :: platform where
  "sample_platform =
     \<lparr> ENCRYPTION_KEY = Some ''0123456789abcdef0123456789abcdef'',
       getDeviceIdAsync = Inr None,
       getRandomBytesAsync_fails = False,
       random_byte = (\<lambda>i j. word_of_nat (17 * i + j)),
       SHA256 = (\<lambda>s. s),
       AES_encrypt = sample_encrypt,
       AES_decrypt = sample_decrypt,
       Hex_parse = (\<lambda>s. []),
       OS_is_web = True,
       SecureStore_rejects = (\<lambda>op k. False),
       AsyncStorage_rejects = (\<lambda>op k. False),
       JSON_parse = sample_parse,
       NetInfo_isConnected = Some True,
       redact = (\<lambda>s. s) \<rparr>"

definition fresh_world :: world where
  "fresh_world =
     \<lparr> encryptionKeyPromise = None, draws = 0,
       SecureStore = Map.empty, AsyncStorage = Map.empty \<rparr>"

text \<open>
  A web process that finds three values in storage: an access token written under another
  key (the derived key changed since), a user record whose text is not JSON, and a session
  entry that is not of the form \<open>iv:ciphertext\<close>. The same platform with a backend that
  rejects every read.
\<close>

definition stale_world :: world where
  "stale_world =
     fresh_world\<lparr>AsyncStorage :=
       [KEY_PREFIX @ ''auth_token'' \<mapsto> ''00ff:U2F00112233445566779999abc123'',
        KEY_PREFIX @ ''user_data'' \<mapsto> ''00ff:U2F00112233445566770123{name'',
        KEY_PREFIX @ ''session'' \<mapsto> ''no-separator'']\<rparr>"

definition read_protected :: platform where
  "read_protected = sample_platform\<lparr>AsyncStorage_rejects := (\<lambda>op k. op = ReadOp)\<rparr>"

text \<open>
  The same platform for strings of 16-bit code units. The library encodes the plaintext
  as UTF-8 first (\<^verbatim>\<open>encodeURIComponent\<close>), which throws on a surrogate that is not
  part of a pair.
\<close>

definition high_surrogate :: "16 word \<Rightarrow> bool" where
  "high_surrogate u = (0xD800 \<le> u \<and> u \<le> 0xDBFF)"

definition low_surrogate :: "16 word \<Rightarrow> bool" where
  "low_surrogate u = (0xDC00 \<le> u \<and> u \<le> 0xDFFF)"

fun well_formed :: "16 word list \<Rightarrow> bool" where
  "well_formed [] = True"
| "well_formed [u] = (\<not> high_surrogate u \<and> \<not> low_surrogate u)"
| "well_formed (u # v # us) =
     (if high_surrogate u then low_surrogate v \<and> well_formed us
      else \<not> low_surrogate u \<and> well_formed (v # us))"

definition hex_of_unit :: "16 word \<Rightarrow> string" where
  "hex_of_unit u =
     [hex_digit (unat u div 4096), hex_digit (unat u div 256),
      hex_digit (unat u div 16), hex_digit (unat u)]"

definition hex_value :: "char \<Rightarrow> nat" where
  "hex_value c = length (takeWhile (\<lambda>d. d \<noteq> c) ''0123456789abcdef'')"

fun units_of_hex :: "string \<Rightarrow> 16 word list" where
  "units_of_hex (a # b # c # d # cs) =
     word_of_nat (((hex_value a * 16 + hex_value b) * 16 + hex_value c) * 16 + hex_value d)
       # units_of_hex cs"
| "units_of_hex cs = []"

definition utf16_encrypt ::
  "16 word list \<Rightarrow> string \<Rightarrow> byte list \<Rightarrow> byte list \<Rightarrow> js_error + string" where
  "utf16_encrypt data key iv salt =
     (if well_formed data
      then Inr (''U2F'' @ salt_text salt @ key_tag key @ concat (map hex_of_unit data))
      else Inl (URIError ''URI malformed''))"

definition utf16_decrypt ::
  "string \<Rightarrow> string \<Rightarrow> byte list \<Rightarrow> js_error + 16 word list" where
  "utf16_decrypt text key iv =
     (if take 3 text = ''U2F'' \<and> 23 \<le> length text
      then (if take 4 (drop 19 text) = key_tag key then Inr (units_of_hex (drop 23 text))
            else Inr [])
      else Inl (Error ''Malformed UTF-8 data''))"

definition utf16_platform :: "16 word platform_for" where
  "utf16_platform =
     \<lparr> ENCRYPTION_KEY = Some ''0123456789abcdef0123456789abcdef'',
       getDeviceIdAsync = Inr None,
       getRandomBytesAsync_fails = False,
       random_byte = (\<lambda>i j. word_of_nat (17 * i + j)),
       SHA256 = (\<lambda>s. s),
       AES_encrypt = utf16_encrypt,
       AES_decrypt = utf16_decrypt,
       Hex_parse = (\<lambda>s. []),
       OS_is_web = True,
       SecureStore_rejects = (\<lambda>op k. False),
       AsyncStorage_rejects = (\<lambda>op k. False),
       JSON_parse = sample_parse,
       NetInfo_isConnected = Some True,
       redact = (\<lambda>s. s) \<rparr>"

text \<open>
  The same platform on a phone (the native store is used), and without network. Two
  requests: one as the application builds them, one whose configuration carries an
  \<open>environment\<close> property and so passes the request interceptor. A signed-in store, a
  client at rest, and a client with two requests in flight.
\<close>

definition native_platform :: platform where
  "native_platform = sample_platform\<lparr>OS_is_web := False\<rparr>"

definition offline_platform :: platform where
  "offline_platform = native_platform\<lparr>NetInfo_isConnected := Some False\<rparr>"

definition get_profile :: AxiosRequestConfig where
  "get_profile =
     \<lparr>url = ''/users/profile'',
      headers = Some [''Accept'' \<mapsto> ''application/json''],
      retry = False, environment = None\<rparr>"

definition get_patients :: AxiosRequestConfig where
  "get_patients =
     \<lparr>url = ''/patients'',
      headers = Some [''Accept'' \<mapsto> ''application/json'', ''Authorization'' \<mapsto> ''Bearer old''],
      retry = False, environment = Some \<lparr>version = ''1.0.0''\<rparr>\<rparr>"

definition signed_in :: world where
  "signed_in =
     fresh_world\<lparr>SecureStore :=
       [KEY_PREFIX @ ''auth_token'' \<mapsto> ''old'', KEY_PREFIX @ ''refresh_token'' \<mapsto> ''r1'']\<rparr>"

definition idle_client :: client where
  "idle_client =
     \<lparr>isRefreshingToken = False, tokenRefreshPromise = None, promises = [],
      refreshPosts = [], requests = [], storage = signed_in\<rparr>"

definition two_in_flight :: client where
  "two_in_flight = idle_client\<lparr>requests := [InFlight get_patients, InFlight get_patients]\<rparr>"




definition four_in_flight :: client where
  "four_in_flight =
     idle_client\<lparr>requests := [InFlight get_patients, InFlight get_patients,
                               InFlight get_patients, InFlight get_patients]\<rparr>"


section \<open>Properties\<close>

lemmas sample_simps =
  sample_platform_def fresh_world_def sample_encrypt_def sample_decrypt_def key_tag_def
  sample_parse_def awaitKey_def getEncryptionKey_def decrypt_def decrypt_try_def element_def
  KEY_PREFIX_def AsyncStorage_getItem_def getItem_def getItem_try_def

subsection \<open>Hex encoding and splitting\<close>



lemma hex_digit_not_colon: "hex_digit n \<noteq> CHR '':''"
proof -
  have "n mod 16 < length ''0123456789abcdef''" by simp
  then have "hex_digit n \<in> set ''0123456789abcdef''"
    unfolding hex_digit_def by (rule nth_mem)
  then show ?thesis by auto
qed


lemma length_Hex_stringify: "length (Hex_stringify bs) = 2 * length bs"
  by (induction bs) (simp_all add: Hex_stringify_def hex_of_byte_def)

lemma colon_notin_Hex_stringify: "CHR '':'' \<notin> set (Hex_stringify bs)"
  by (induction bs)
    (auto simp: Hex_stringify_def hex_of_byte_def hex_digit_not_colon [symmetric])


lemma js_split_no_sep: "c \<notin> set s \<Longrightarrow> js_split c s = [s]"
  by (induction s) auto

lemma js_split_first: "c \<notin> set a \<Longrightarrow> js_split c (a @ c # b) = a # js_split c b"
  by (induction a) auto

subsection \<open>The cipher\<close>

lemma length_encrypt_iv: "length (encrypt_iv P w) = 16"
  by (simp add: encrypt_iv_def random_bytes_def)

lemma awaitKey_cached: "encryptionKeyPromise (snd (awaitKey P w)) = Some (fst (awaitKey P w))"
  by (auto simp: awaitKey_def split: option.splits prod.splits)

lemma awaitKey_idem: "encryptionKeyPromise w = Some k \<Longrightarrow> awaitKey P w = (k, w)"
  by (simp add: awaitKey_def)


lemma encrypt_result:
  "encrypt P w s =
     (case AES_encrypt P s (fst (awaitKey P w)) (encrypt_iv P w) (encrypt_salt P w) of
        Inl e \<Rightarrow> Inl (Error ''Failed to encrypt data'')
      | Inr c \<Rightarrow> Inr (Hex_stringify (encrypt_iv P w) @ '':'' @ c),
      snd (random_bytes P (snd (random_bytes P (snd (awaitKey P w)) 16)) 8))"
  by (simp add: encrypt_def encrypt_iv_def encrypt_salt_def split: prod.splits sum.splits)

lemma encrypt_keeps_key:
  "encryptionKeyPromise (snd (encrypt P w s)) = Some (fst (awaitKey P w))"
  using awaitKey_cached [of P w]
  by (simp add: encrypt_result random_bytes_def)

lemma decrypt_framed:
  assumes "encryptionKeyPromise w = Some key" and "length iv = 16"
    and "c \<noteq> []" and "CHR '':'' \<notin> set c"
  shows "fst (decrypt P w (Hex_stringify iv @ CHR '':'' # c))
    = (case AES_decrypt P c key (Hex_parse P (Hex_stringify iv)) of
         Inl e \<Rightarrow> Inl (Error ''Failed to decrypt data'') | Inr s \<Rightarrow> Inr s)"
proof -
  have parts: "js_split CHR '':'' (Hex_stringify iv @ CHR '':'' # c) = [Hex_stringify iv, c]"
    using assms(4) by (simp add: js_split_first colon_notin_Hex_stringify js_split_no_sep)
  have ne: "Hex_stringify iv \<noteq> []"
    using length_Hex_stringify [of iv] assms(2) by auto
  have "decrypt_try P key (Hex_stringify iv @ CHR '':'' # c)
      = AES_decrypt P c key (Hex_parse P (Hex_stringify iv))"
    using assms(3) ne by (simp add: decrypt_try_def parts element_def)
  then show ?thesis
    by (simp add: decrypt_def awaitKey_idem [OF assms(1)] split: sum.splits)
qed

text \<open>The stand-in cipher keeps the contract.\<close>

lemma colon_notin_escape: "CHR '':'' \<notin> set (escape d)"
  by (induction d) simp_all

lemma unescape_escape: "unescape (escape d) = d"
  by (induction d) simp_all

lemma length_salt_text: "length (salt_text salt) = 16"
  by (simp add: salt_text_def length_Hex_stringify)

lemma length_key_tag: "length (key_tag key) = 4"
  by (simp add: key_tag_def)

lemma colon_notin_key_tag: "CHR '':'' \<notin> set (key_tag key)"
  by (auto simp: key_tag_def)

lemma sample_cipher_inverts: "cipher_inverts sample_platform"
proof -
  have "sample_decrypt (''U2F'' @ salt_text salt @ key_tag key @ escape data) key iv'
      = Inr data" for salt key data iv'
    by (simp add: sample_decrypt_def length_salt_text length_key_tag unescape_escape)
  moreover have "CHR '':'' \<notin> set (''U2F'' @ salt_text salt @ key_tag key @ escape data)"
    for salt key data
    by (simp add: colon_notin_escape colon_notin_key_tag salt_text_def
        colon_notin_Hex_stringify)
  ultimately show ?thesis
    by (auto simp: cipher_inverts_def sample_platform_def sample_encrypt_def)
qed

text \<open>
  C6, as the code has it. The cipher is the library's, taken with its contract: what it
  returns is a Base64 text, and it decrypts what it encrypted under the same passphrase.
  Then, for every string: either the library throws on it, and \<open>encrypt\<close> fails with
  \<open>Error ''Failed to encrypt data''\<close>; or \<open>encrypt\<close> returns a text that \<open>decrypt\<close>
  turns back into the string, in every later state of the process that still holds the
  key \<open>encrypt\<close> used.
\<close>

theorem encrypt_decrypt_roundtrip:
  assumes "cipher_inverts P"
  shows "(\<forall>blob w' w''. encrypt P w s = (Inr blob, w')
             \<and> encryptionKeyPromise w'' = encryptionKeyPromise w'
           \<longrightarrow> fst (decrypt P w'' blob) = Inr s)
       \<and> (\<forall>e w'. encrypt P w s = (Inl e, w')
           \<longrightarrow> e = Error ''Failed to encrypt data''
             \<and> (\<exists>e'. AES_encrypt P s (fst (awaitKey P w)) (encrypt_iv P w) (encrypt_salt P w)
                      = Inl e'))"
proof (intro conjI allI impI)
  fix blob w' and w'' :: world
  assume a: "encrypt P w s = (Inr blob, w') \<and> encryptionKeyPromise w'' = encryptionKeyPromise w'"
  let ?key = "fst (awaitKey P w)" and ?iv = "encrypt_iv P w"
  from a obtain c where c: "AES_encrypt P s ?key ?iv (encrypt_salt P w) = Inr c"
    and blob: "blob = Hex_stringify ?iv @ CHR '':'' # c"
    by (auto simp: encrypt_result split: sum.splits)
  from c assms have ne: "c \<noteq> []" and nc: "CHR '':'' \<notin> set c"
    and dec: "AES_decrypt P c ?key (Hex_parse P (Hex_stringify ?iv)) = Inr s"
    unfolding cipher_inverts_def by blast+
  have "encryptionKeyPromise w' = Some ?key"
    using encrypt_keeps_key [of P w s] a by simp
  with a have key: "encryptionKeyPromise w'' = Some ?key" by simp
  show "fst (decrypt P w'' blob) = Inr s"
    unfolding blob using decrypt_framed [OF key length_encrypt_iv [of P w] ne nc, of P] dec by simp
next
  fix e w'
  assume "encrypt P w s = (Inl e, w')"
  then show "e = Error ''Failed to encrypt data''"
    and "\<exists>e'. AES_encrypt P s (fst (awaitKey P w)) (encrypt_iv P w) (encrypt_salt P w) = Inl e'"
    by (auto simp: encrypt_result split: sum.splits)
qed

theorem encrypt_decrypt_roundtrip_witness:
  "\<exists>blob w'. encrypt sample_platform fresh_world ''a:b'' = (Inr blob, w')
     \<and> fst (decrypt sample_platform w' blob) = Inr ''a:b''"
proof -
  obtain blob w' where e: "encrypt sample_platform fresh_world ''a:b'' = (Inr blob, w')"
    by (simp add: encrypt_result sample_platform_def sample_encrypt_def)
  with encrypt_decrypt_roundtrip [OF sample_cipher_inverts, of fresh_world "''a:b''"]
  have "fst (decrypt sample_platform w' blob) = Inr ''a:b''" by blast
  with e show ?thesis by blast
qed

text \<open>
  The claim as the specification words it fails: not every string can be encrypted. On a
  string that holds a surrogate without its pair the library throws, \<open>encrypt\<close> fails,
  and there is no text to decrypt.
\<close>

theorem encrypt_lone_surrogate_counterexample:
  "fst (encrypt utf16_platform fresh_world [0xD800]) = Inl (Error ''Failed to encrypt data'')"
  by (simp add: encrypt_result utf16_platform_def utf16_encrypt_def high_surrogate_def)



lemma decrypt_try_malformed:
  assumes "CHR '':'' \<notin> set d \<or> takeWhile (\<lambda>x. x \<noteq> CHR '':'') d = []
           \<or> tl (dropWhile (\<lambda>x. x \<noteq> CHR '':'') d) = []"
  shows "decrypt_try P key d = Inl (Error ''Invalid encrypted data format'')"
proof (cases "CHR '':'' \<in> set d")
  case False
  then show ?thesis by (simp add: decrypt_try_def js_split_no_sep element_def)
next
  case True
  define a where "a = takeWhile (\<lambda>x. x \<noteq> CHR '':'') d"
  define b where "b = tl (dropWhile (\<lambda>x. x \<noteq> CHR '':'') d)"
  have "dropWhile (\<lambda>x. x \<noteq> CHR '':'') d \<noteq> []" using True by auto
  moreover have "hd (dropWhile (\<lambda>x. x \<noteq> CHR '':'') d) = CHR '':''"
    using True hd_dropWhile [of "\<lambda>x. x \<noteq> CHR '':''" d] by auto
  ultimately have "dropWhile (\<lambda>x. x \<noteq> CHR '':'') d = CHR '':'' # b"
    unfolding b_def by (cases "dropWhile (\<lambda>x. x \<noteq> CHR '':'') d") auto
  then have d: "d = a @ CHR '':'' # b"
    unfolding a_def by (metis takeWhile_dropWhile_id)
  have na: "CHR '':'' \<notin> set a"
    unfolding a_def by (auto dest: set_takeWhileD)
  have sp: "js_split CHR '':'' d = a # js_split CHR '':'' b"
    unfolding d using na by (rule js_split_first)
  from assms True have "a = [] \<or> b = []" by (simp add: a_def b_def)
  then show ?thesis
  proof
    assume "a = []"
    then show ?thesis by (simp add: decrypt_try_def sp element_def)
  next
    assume "b = []"
    then show ?thesis by (simp add: decrypt_try_def sp element_def)
  qed
qed

text \<open>
  C8, as the code has it. When the separator is missing, or the text before or after the
  first colon is empty, \<open>decrypt\<close> fails; the error the caller gets is
  \<open>Error ''Failed to decrypt data''\<close>, the same one every other failure of \<open>decrypt\<close>
  gives. The format error thrown inside is caught by the function's own handler.
\<close>

theorem decrypt_malformed_generic:
  assumes "CHR '':'' \<notin> set d \<or> takeWhile (\<lambda>x. x \<noteq> CHR '':'') d = []
           \<or> tl (dropWhile (\<lambda>x. x \<noteq> CHR '':'') d) = []"
  shows "fst (decrypt P w d) = Inl (Error ''Failed to decrypt data'')
    \<and> (\<forall>d' e. fst (decrypt P w d') = Inl e \<longrightarrow> e = Error ''Failed to decrypt data'')"
  by (auto simp: decrypt_def decrypt_try_malformed [OF assms] split: prod.splits sum.splits)

theorem decrypt_malformed_generic_witness:
  "fst (decrypt sample_platform fresh_world ''no-separator'') = Inl (Error ''Failed to decrypt data'')
   \<and> fst (decrypt sample_platform fresh_world '':abcd'') = Inl (Error ''Failed to decrypt data'')
   \<and> fst (decrypt sample_platform fresh_world ''00ff:'') = Inl (Error ''Failed to decrypt data'')"
proof -
  have "fst (decrypt sample_platform fresh_world ''no-separator'')
      = Inl (Error ''Failed to decrypt data'')"
    by (rule decrypt_malformed_generic [THEN conjunct1]) simp
  moreover have "fst (decrypt sample_platform fresh_world '':abcd'')
      = Inl (Error ''Failed to decrypt data'')"
    by (rule decrypt_malformed_generic [THEN conjunct1]) simp
  moreover have "fst (decrypt sample_platform fresh_world ''00ff:'')
      = Inl (Error ''Failed to decrypt data'')"
    by (rule decrypt_malformed_generic [THEN conjunct1]) simp
  ultimately show ?thesis by simp
qed

text \<open>
  The claim as the specification words it fails: a text without separator does not make
  \<open>decrypt\<close> fail with the format error; the caller gets the error that every failure
  of \<open>decrypt\<close> ends in.
\<close>

theorem decrypt_invalid_format_counterexample:
  "fst (decrypt sample_platform fresh_world ''no-separator'')
     \<noteq> Inl (Error ''Invalid encrypted data format'')
   \<and> fst (decrypt sample_platform fresh_world ''no-separator'')
     = Inl (Error ''Failed to decrypt data'')"
  by (simp add: sample_simps)

subsection \<open>Reading from storage\<close>

lemma getItem_total: "\<exists>v. fst (getItem P w key) = Inr v"
  by (auto simp: getItem_def split: prod.splits sum.splits)

lemma getObject_total: "\<exists>v. fst (getObject P w key) = Inr v"
  by (auto simp: getObject_def split: prod.splits sum.splits)

lemma decrypt_empty: "\<exists>e. fst (decrypt P w []) = Inl e"
  by (simp add: decrypt_def decrypt_try_def element_def case_prod_unfold)

lemma getItem_web:
  assumes "OS_is_web P" and "AsyncStorage_getItem P w (KEY_PREFIX @ key) = Inr (Some blob)"
  shows "fst (getItem P w key)
    = (case fst (decrypt P w blob) of Inl e \<Rightarrow> Inr None | Inr s \<Rightarrow> Inr (Some s))"
proof (cases "blob = []")
  case True
  with decrypt_empty [of P w] assms show ?thesis
    by (auto simp: getItem_def getItem_try_def)
next
  case False
  with assms show ?thesis
    by (auto simp: getItem_def getItem_try_def split: prod.splits sum.splits)
qed

lemma getItem_read_rejected:
  assumes "backend_rejects P ReadOp (KEY_PREFIX @ key)"
  shows "fst (getItem P w key) = Inr None"
  using assms
  by (auto simp: getItem_def getItem_try_def backend_rejects_def SecureStore_getItemAsync_def
      AsyncStorage_getItem_def split: if_splits)

lemma getObject_absent:
  assumes "fst (getItem P w key) = Inr (Some s)" and "s = [] \<or> JSON_parse P s = Inl e"
  shows "fst (getObject P w key) = Inr JNull"
  using assms by (auto simp: getObject_def getObject_try_def split: prod.splits sum.splits)

text \<open>
  C9, as the code has it. \<open>getItem\<close> and \<open>getObject\<close> never raise: every call returns a
  value. \<open>getItem\<close> returns \<^verbatim>\<open>null\<close> when the backend rejects the read and, on the web,
  when \<open>decrypt\<close> raises on the stored text; when \<open>decrypt\<close> returns a text, \<open>getItem\<close>
  returns that text, whatever it is. \<open>getObject\<close> returns \<^verbatim>\<open>null\<close> when the text that
  \<open>getItem\<close> returned is empty or is not JSON.
\<close>

theorem storage_reads_absent_on_failure:
  "(\<exists>v. fst (getItem P w key) = Inr v) \<and> (\<exists>v. fst (getObject P w key) = Inr v) \<and>
   (backend_rejects P ReadOp (KEY_PREFIX @ key) \<longrightarrow> fst (getItem P w key) = Inr None) \<and>
   (OS_is_web P \<and> AsyncStorage_getItem P w (KEY_PREFIX @ key) = Inr (Some blob) \<longrightarrow>
      fst (getItem P w key)
        = (case fst (decrypt P w blob) of Inl e \<Rightarrow> Inr None | Inr s \<Rightarrow> Inr (Some s))) \<and>
   (fst (getItem P w key') = Inr (Some s) \<and> (s = [] \<or> JSON_parse P s = Inl e')
      \<longrightarrow> fst (getObject P w key') = Inr JNull)"
  using getItem_total getObject_total getItem_read_rejected getItem_web getObject_absent
  by blast

theorem storage_reads_absent_on_failure_witness:
  "fst (getItem sample_platform stale_world ''user_data'') = Inr (Some ''{name'') \<and>
   fst (getObject sample_platform stale_world ''user_data'') = Inr JNull \<and>
   fst (getItem sample_platform stale_world ''session'') = Inr None \<and>
   fst (getItem read_protected stale_world ''user_data'') = Inr None"
proof -
  have web: "OS_is_web sample_platform"
    by (simp add: sample_platform_def)
  have stored: "AsyncStorage_getItem sample_platform stale_world (KEY_PREFIX @ ''user_data'')
      = Inr (Some ''00ff:U2F00112233445566770123{name'')"
    by (simp add: sample_simps stale_world_def)
  have decrypted: "fst (decrypt sample_platform stale_world ''00ff:U2F00112233445566770123{name'')
      = Inr ''{name''"
    by (simp add: sample_simps stale_world_def)
  have malformed: "JSON_parse sample_platform ''{name'' = Inl (Error ''SyntaxError: Unexpected token'')"
    by (simp add: sample_simps)
  note user = storage_reads_absent_on_failure [of sample_platform stale_world "''user_data''"
      "''00ff:U2F00112233445566770123{name''" "''user_data''" "''{name''"
      "Error ''SyntaxError: Unexpected token''"]
  from user web stored decrypted
  have item: "fst (getItem sample_platform stale_world ''user_data'') = Inr (Some ''{name'')"
    by simp
  with user malformed
  have object: "fst (getObject sample_platform stale_world ''user_data'') = Inr JNull"
    by blast
  have stored': "AsyncStorage_getItem sample_platform stale_world (KEY_PREFIX @ ''session'')
      = Inr (Some ''no-separator'')"
    by (simp add: sample_simps stale_world_def)
  have raised: "fst (decrypt sample_platform stale_world ''no-separator'')
      = Inl (Error ''Failed to decrypt data'')"
    by (simp add: sample_simps stale_world_def)
  from storage_reads_absent_on_failure [of sample_platform stale_world "''session''"
      "''no-separator''" "''user_data''" "''{name''" "Error ''SyntaxError: Unexpected token''"]
    web stored' raised
  have session: "fst (getItem sample_platform stale_world ''session'') = Inr None"
    by simp
  have rejected: "backend_rejects read_protected ReadOp (KEY_PREFIX @ ''user_data'')"
    by (simp add: backend_rejects_def read_protected_def sample_platform_def)
  from storage_reads_absent_on_failure [of read_protected stale_world "''user_data''"
      "''00ff:U2F00112233445566770123{name''" "''user_data''" "''{name''"
      "Error ''SyntaxError: Unexpected token''"] rejected
  have "fst (getItem read_protected stale_world ''user_data'') = Inr None"
    by blast
  with item object session show ?thesis by simp
qed

text \<open>
  The claim as the specification words it fails: the access token was written under
  another key; the cipher decrypts it to the empty string without raising, and \<open>getItem\<close>
  returns that string, not \<^verbatim>\<open>null\<close>; the key counts as present.
\<close>

theorem stale_key_not_absent_counterexample:
  "fst (getItem sample_platform stale_world ''auth_token'') = Inr (Some [])
   \<and> fst (getItem sample_platform stale_world ''auth_token'') \<noteq> Inr None
   \<and> fst (hasKey sample_platform stale_world ''auth_token'') = Inr True"
  by (simp add: sample_simps stale_world_def hasKey_def)

subsection \<open>maskSensitiveData\<close>

lemma js_repeat_star: "0 \<le> n \<Longrightarrow> js_repeat ''*'' n = Inr (replicate (nat n) CHR ''*'')"
  by (simp add: js_repeat_def flip: replicate_length_same)

lemma maskSensitiveData_empty: "maskSensitiveData [] v = Inr []"
  by (simp add: maskSensitiveData_def)

lemma maskSensitiveData_short: "int (length s) \<le> v \<Longrightarrow> maskSensitiveData s v = Inr s"
  by (simp add: maskSensitiveData_def)

text \<open>
  With at least one character to leave visible and a longer input, the result keeps the
  length: stars, then the last \<open>v\<close> characters.
\<close>

lemma maskSensitiveData_positive:
  assumes "0 < v" and "v < int (length s)"
  shows "maskSensitiveData s v
    = Inr (replicate (length s - nat v) CHR ''*'' @ drop (length s - nat v) s)"
  using assms
  by (auto simp: maskSensitiveData_def js_slice_from_def js_repeat_star Let_def
      nat_diff_distrib max_def)

text \<open>
  C10. With \<open>visibleChars = 0\<close> the claim asks for three stars. The code computes
  \<^verbatim>\<open>value.slice(-0)\<close>, which is the whole input, and returns the stars followed by the
  unmasked input.
\<close>

theorem maskSensitiveData_zero_visible:
  "maskSensitiveData ''abc'' 0 = Inr ''***abc''"
  by code_simp

subsection \<open>The API client\<close>

lemma element_simps [simp]:
  "element [] i = None"
  "element (x # xs) 0 = Some x"
  "element (x # xs) (Suc i) = element xs i"
  by (simp_all add: element_def)

lemma element_update:
  "element (xs[i := v]) j = (if j < length xs \<and> i = j then Some v else element xs j)"
  by (simp add: element_def)

lemma element_append1: "element (xs @ [x]) (length xs) = Some x"
  by (simp add: element_def)

lemma set_request_simps [simp]:
  "requests (set_request c i r) = (requests c)[i := r]"
  "promises (set_request c i r) = promises c"
  "refreshPosts (set_request c i r) = refreshPosts c"
  "storage (set_request c i r) = storage c"
  "isRefreshingToken (set_request c i r) = isRefreshingToken c"
  "tokenRefreshPromise (set_request c i r) = tokenRefreshPromise c"
  by (simp_all add: set_request_def)

lemma finallyBlock_simps [simp]:
  "requests (finallyBlock c) = requests c"
  "promises (finallyBlock c) = promises c"
  "refreshPosts (finallyBlock c) = refreshPosts c"
  "storage (finallyBlock c) = storage c"
  "isRefreshingToken (finallyBlock c) = False"
  "tokenRefreshPromise (finallyBlock c) = None"
  by (simp_all add: finallyBlock_def)

text \<open>
  With the network reachable and a headers object on the request, the interceptor throws
  as soon as the configuration has no \<open>environment\<close> property of its own.
\<close>

lemma requestFulfilled_shadowed_config:
  assumes "NetInfo_isConnected P = Some True" and "headers cfg \<noteq> None" and "environment cfg = None"
  shows "fst (requestFulfilled P w cfg)
    = Inl (Thrown (TypeError ''Cannot read properties of undefined (reading 'version')''))"
  using assms
  by (auto simp: requestFulfilled_def set_header_def Let_def split: prod.splits sum.splits option.splits)

lemma handleApiError_Thrown:
  "handleApiError P (Thrown e)
    = Inr \<lparr>status = 500, code = JStr ''CLIENT_ERROR'',
          message = (if error_message e = [] then ''An unknown error occurred''
                     else redact P (error_message e)),
          errors = None\<rparr>"
  by (simp add: handleApiError_def sanitizeErrorMessage_def)

lemma responseRejected_Thrown:
  "responseRejected P c i (Thrown e) = set_request c i (normalized P (Thrown e))"
  by (simp add: responseRejected_def)

lemmas storage_simps =
  getItem_def getItem_try_def setItem_def setItem_try_def deleteItem_def deleteItem_try_def
  SecureStore_getItemAsync_def SecureStore_setItemAsync_def SecureStore_deleteItemAsync_def
  AsyncStorage_getItem_def AsyncStorage_setItem_def AsyncStorage_removeItem_def KEY_PREFIX_def

lemmas client_simps =
  run_def step_def intercept_def deliver_def responseRejected_def refreshRead_def
  refreshResponse_def refreshStored_def storageDone_def settle_def resume_def replay_def
  startRefresh_def normalized_def handleApiError_def fromAxiosError_def
  sanitizeErrorMessage_def requestFulfilled_def set_header_def AUTH_REQUIRED_def
  getDefaultMessageForStatus_def

lemmas sample_client_simps =
  native_platform_def sample_platform_def get_patients_def signed_in_def idle_client_def
  two_in_flight_def fresh_world_def

text \<open>
  C3. A request as the application builds it, on a connected device: the interceptor throws
  at \<^verbatim>\<open>config.environment.version\<close> before any compliance header is attached, the
  request is not dispatched, and the caller gets a \<open>CLIENT_ERROR\<close>.
\<close>

theorem request_never_dispatched:
  "requests (run native_platform idle_client [Request get_profile, Intercept 0])
    = [Done (Inl (Api \<lparr>status = 500, code = JStr ''CLIENT_ERROR'',
         message = ''Cannot read properties of undefined (reading 'version')'',
         errors = None\<rparr>))]"
  by (simp add: client_simps storage_simps sample_client_simps get_profile_def)

text \<open>
  C4, as the code has it. Without network reachability the request interceptor rejects,
  the request is not dispatched, no refresh is begun and nothing else in the client
  changes; the error the caller gets is the normalization of a plain exception, of kind
  \<open>CLIENT_ERROR\<close> with status 500.
\<close>

theorem offline_fails_fast:
  assumes "NetInfo_isConnected P \<noteq> Some True"
    and "element (requests c) i = Some (Intercepting cfg)"
  shows "step P c (Intercept i)
    = set_request c i (Done (Inl (Api \<lparr>status = 500, code = JStr ''CLIENT_ERROR'',
        message = redact P ''No network connection available'', errors = None\<rparr>)))"
  using assms
  by (simp add: step_def intercept_def requestFulfilled_def responseRejected_Thrown
      normalized_def handleApiError_Thrown)

lemma set_header_simps [simp]:
  "retry (set_header cfg n v) = retry cfg"
  "environment (set_header cfg n v) = environment cfg"
  "url (set_header cfg n v) = url cfg"
  "(headers (set_header cfg n v) = None) = (headers cfg = None)"
  by (simp_all add: set_header_def split: option.splits)








lemma element_append_new [simp]: "element (xs @ [x]) (length xs) = Some x"
  by (simp add: element_def)












subsection \<open>The promise of a refresh settles\<close>

lemma element_iff: "element xs i = Some r \<longleftrightarrow> i < length xs \<and> xs ! i = r"
  by (auto simp: element_def)

lemma element_None_iff: "element xs i = None \<longleftrightarrow> length xs \<le> i"
  by (auto simp: element_def)

lemma has_headers_resumed: "has_headers r \<Longrightarrow> has_headers (resumed outcome r)"
  by (cases r; cases outcome) simp_all

lemma resumed_idem: "resumed outcome (resumed outcome r) = resumed outcome r"
  by (cases r; cases outcome) simp_all

lemma resumed_not_waiting: "\<not> waiting r \<Longrightarrow> resumed outcome r = r"
  by (cases r; cases outcome) simp_all

lemma not_waiting_resumed: "\<not> waiting (resumed outcome r)"
  by (cases r; cases outcome) simp_all

lemma list_all_update: "list_all Q xs \<Longrightarrow> Q v \<Longrightarrow> list_all Q (xs[i := v])"
  unfolding list_all_iff using set_update_subset_insert [of xs i v] by auto

lemma list_all_element: "list_all Q xs \<Longrightarrow> element xs i = Some r \<Longrightarrow> Q r"
  by (auto simp: element_iff list_all_length)

lemma usable_Inl [simp]: "usable (Inl r) rs"
  by (simp add: usable_def)

text \<open>On a usable outcome a waiting handler continues as \<open>resumed\<close> says, and nothing else changes.\<close>

lemma resume_fields:
  assumes "usable outcome (requests c)"
  shows "requests (resume c i outcome) = (requests c)[i := resumed outcome (requests c ! i)]"
    and "promises (resume c i outcome) = promises c"
    and "refreshPosts (resume c i outcome) = refreshPosts c"
    and "storage (resume c i outcome) = storage c"
    and "isRefreshingToken (resume c i outcome) \<longrightarrow>
           isRefreshingToken c \<and> tokenRefreshPromise (resume c i outcome) = tokenRefreshPromise c"
proof -
  have hh: "has_headers r \<and> t \<noteq> []" if "element (requests c) i = Some r" and "outcome = Inr t"
    for r t
    using that assms by (auto simp: usable_def element_iff list_all_length)
  show "requests (resume c i outcome) = (requests c)[i := resumed outcome (requests c ! i)]"
  proof (cases "element (requests c) i")
    case None
    then have "length (requests c) \<le> i" by (simp add: element_None_iff)
    with None show ?thesis by (simp add: resume_def list_update_beyond)
  next
    case (Some r)
    then have r: "requests c ! i = r" by (simp add: element_iff)
    have id: "(requests c)[i := r] = requests c"
      using r by (metis list_update_id)
    show ?thesis
    proof (cases outcome)
      case (Inl x)
      with Some r id show ?thesis
        by (cases r) (simp_all add: resume_def)
    next
      case (Inr t)
      with Some r id hh [OF Some Inr] show ?thesis
        by (cases r) (simp_all add: resume_def replay_def)
    qed
  qed
  show "promises (resume c i outcome) = promises c"
    "refreshPosts (resume c i outcome) = refreshPosts c"
    "storage (resume c i outcome) = storage c"
    "isRefreshingToken (resume c i outcome) \<longrightarrow>
       isRefreshingToken c \<and> tokenRefreshPromise (resume c i outcome) = tokenRefreshPromise c"
  proof (atomize (full), cases "element (requests c) i", goal_cases)
    case 1
    then show ?case by (simp add: resume_def)
  next
    case (2 r)
    show ?case
    proof (cases outcome)
      case (Inl x)
      with 2 show ?thesis
        by (cases r) (simp_all add: resume_def)
    next
      case (Inr t)
      with 2 hh [OF 2 Inr] show ?thesis
        by (cases r) (simp_all add: resume_def replay_def)
    qed
  qed
qed

lemma usable_resume:
  assumes "usable outcome (requests c)"
  shows "usable outcome (requests (resume c i outcome))"
proof (cases outcome)
  case (Inl x)
  then show ?thesis by simp
next
  case (Inr t)
  with assms have h: "list_all has_headers (requests c)" and t: "t \<noteq> []"
    by (simp_all add: usable_def)
  have "list_all has_headers ((requests c)[i := resumed outcome (requests c ! i)])"
  proof (cases "i < length (requests c)")
    case True
    then have "has_headers (resumed outcome (requests c ! i))"
      using h by (auto intro!: has_headers_resumed simp: list_all_length)
    then show ?thesis by (rule list_all_update [OF h])
  next
    case False
    then show ?thesis using h by (simp add: list_update_beyond)
  qed
  then have "list_all has_headers (requests (resume c i outcome))"
    unfolding resume_fields(1) [OF assms] .
  with Inr t show ?thesis
    by (simp add: usable_def)
qed

lemma resume_all:
  assumes "usable outcome (requests c)"
  shows "requests (foldl (\<lambda>c' i. resume c' i outcome) c ws)
      = map (\<lambda>j. if j \<in> set ws then resumed outcome (requests c ! j) else requests c ! j)
          [0..<length (requests c)]
    \<and> promises (foldl (\<lambda>c' i. resume c' i outcome) c ws) = promises c
    \<and> refreshPosts (foldl (\<lambda>c' i. resume c' i outcome) c ws) = refreshPosts c
    \<and> storage (foldl (\<lambda>c' i. resume c' i outcome) c ws) = storage c
    \<and> (isRefreshingToken (foldl (\<lambda>c' i. resume c' i outcome) c ws) \<longrightarrow>
         isRefreshingToken c
         \<and> tokenRefreshPromise (foldl (\<lambda>c' i. resume c' i outcome) c ws)
             = tokenRefreshPromise c)"
  using assms
proof (induction ws arbitrary: c)
  case Nil
  then show ?case by (simp add: map_nth)
next
  case (Cons i ws)
  let ?c1 = "resume c i outcome"
  note r = resume_fields [OF Cons.prems, of i]
  have u1: "usable outcome (requests ?c1)"
    by (rule usable_resume [OF Cons.prems])
  have "map (\<lambda>j. if j \<in> set ws then resumed outcome (requests ?c1 ! j) else requests ?c1 ! j)
          [0..<length (requests ?c1)]
      = map (\<lambda>j. if j \<in> set (i # ws) then resumed outcome (requests c ! j) else requests c ! j)
          [0..<length (requests c)]"
  proof -
    have "resumed outcome ((requests c)[i := resumed outcome (requests c ! i)] ! x)
        = resumed outcome (requests c ! x)" if "x < length (requests c)" for x
      using that by (cases "x = i") (simp_all add: resumed_idem)
    moreover have "(requests c)[i := resumed outcome (requests c ! i)] ! x
        = (if x = i then resumed outcome (requests c ! x) else requests c ! x)"
      if "x < length (requests c)" for x
      using that by (cases "x = i") simp_all
    ultimately show ?thesis
      unfolding r(1) by (auto simp: resumed_idem)
  qed
  with Cons.IH [OF u1] r show ?case by simp
qed

lemma settle_fields:
  assumes "element (promises c) p = Some call" and "usable outcome (requests c)"
  shows "requests (settle c p outcome)
      = map (\<lambda>j. if j \<in> set (waiters call) then resumed outcome (requests c ! j)
                  else requests c ! j) [0..<length (requests c)]"
    and "promises (settle c p outcome)
      = (promises c)[p := \<lparr>phase = (case outcome of Inl r \<Rightarrow> Rejected r | Inr t \<Rightarrow> Resolved t),
                           waiters = []\<rparr>]"
    and "refreshPosts (settle c p outcome) = refreshPosts c"
    and "storage (settle c p outcome) = storage c"
    and "isRefreshingToken (settle c p outcome) \<longrightarrow>
           isRefreshingToken c \<and> tokenRefreshPromise (settle c p outcome) = tokenRefreshPromise c"
proof -
  let ?c1 = "c\<lparr>promises := (promises c)
      [p := \<lparr>phase = (case outcome of Inl r \<Rightarrow> Rejected r | Inr t \<Rightarrow> Resolved t),
             waiters = []\<rparr>]\<rparr>"
  have s: "settle c p outcome = foldl (\<lambda>c' i. resume c' i outcome) ?c1 (waiters call)"
    using assms(1) by (simp add: settle_def)
  have u: "usable outcome (requests ?c1)"
    using assms(2) by simp
  note all = resume_all [OF u, of "waiters call"]
  show "requests (settle c p outcome)
      = map (\<lambda>j. if j \<in> set (waiters call) then resumed outcome (requests c ! j)
                  else requests c ! j) [0..<length (requests c)]"
    unfolding s using all by simp
  show "promises (settle c p outcome)
      = (promises c)[p := \<lparr>phase = (case outcome of Inl r \<Rightarrow> Rejected r | Inr t \<Rightarrow> Resolved t),
                           waiters = []\<rparr>]"
    unfolding s using all by simp
  show "refreshPosts (settle c p outcome) = refreshPosts c"
    unfolding s using all by simp
  show "storage (settle c p outcome) = storage c"
    unfolding s using all by simp
  show "isRefreshingToken (settle c p outcome) \<longrightarrow>
      isRefreshingToken c \<and> tokenRefreshPromise (settle c p outcome) = tokenRefreshPromise c"
    unfolding s using all by simp
qed

text \<open>When an event completes a refresh, the step settles its promise with that outcome.\<close>

lemma outcome_facts:
  assumes "refresh_outcome P c p ev = Some outcome"
  shows "\<exists>call. element (promises c) p = Some call \<and> pending (phase call)
           \<and> refresh_index ev = Some p
           \<and> (case outcome of Inl r \<Rightarrow> True | Inr t \<Rightarrow> phase call = StoringToken t)"
  using assms unfolding refresh_outcome_def
  by (auto split: option.splits event.splits refresh_phase.splits sum.splits if_splits)

lemma step_settles:
  assumes "refresh_outcome P c p ev = Some outcome"
  shows "\<exists>w. step P c ev = settle (c\<lparr>storage := w\<rparr>) p outcome"
proof -
  from outcome_facts [OF assms] obtain call where call: "element (promises c) p = Some call"
    and idx: "refresh_index ev = Some p"
    by blast
  show ?thesis
  proof (cases ev)
    case (RefreshRead q)
    with idx have q: "q = p" by simp
    obtain res w where g: "getItem P (storage c) ''refresh_token'' = (res, w)"
      by (cases "getItem P (storage c) ''refresh_token''")
    have "step P c ev = settle (c\<lparr>storage := w\<rparr>) p outcome"
      using assms call RefreshRead q g
      by (auto simp: refresh_outcome_def step_def refreshRead_def
          split: refresh_phase.splits sum.splits if_splits)
    then show ?thesis ..
  next
    case (RefreshResponse q res)
    with idx have q: "q = p" by simp
    have "step P c ev = settle (c\<lparr>storage := storage c\<rparr>) p outcome"
      using assms call RefreshResponse q
      by (auto simp: refresh_outcome_def step_def refreshResponse_def
          split: refresh_phase.splits sum.splits if_splits)
    then show ?thesis ..
  next
    case (RefreshStored q)
    with idx have q: "q = p" by simp
    obtain token where ph: "phase call = StoringToken token"
      using assms call RefreshStored
      by (auto simp: refresh_outcome_def split: refresh_phase.splits)
    obtain res w where g: "setItem P (storage c) ''auth_token'' token = (res, w)"
      by (cases "setItem P (storage c) ''auth_token'' token")
    have "step P c ev = settle (c\<lparr>storage := w\<rparr>) p outcome"
      using assms call RefreshStored q g ph
      by (auto simp: refresh_outcome_def step_def refreshStored_def
          split: sum.splits if_splits)
    then show ?thesis ..
  qed (use idx in simp_all)
qed








theorem offline_fails_fast_witness:
  "requests (step offline_platform (idle_client\<lparr>requests := [Intercepting get_patients]\<rparr>)
       (Intercept 0))
   = [Done (Inl (Api \<lparr>status = 500, code = JStr ''CLIENT_ERROR'',
        message = ''No network connection available'', errors = None\<rparr>))]"
proof -
  have a: "NetInfo_isConnected offline_platform \<noteq> Some True"
    by (simp add: offline_platform_def)
  have b: "element (requests (idle_client\<lparr>requests := [Intercepting get_patients]\<rparr>)) 0
      = Some (Intercepting get_patients)"
    by simp
  have r: "redact offline_platform = (\<lambda>s. s)"
    by (simp add: offline_platform_def native_platform_def sample_platform_def)
  show ?thesis
    unfolding offline_fails_fast [OF a b] r by simp
qed

text \<open>
  The claim as the specification words it fails: the error of an offline request is not
  of kind \<open>NETWORK_ERROR\<close>.
\<close>

theorem offline_error_kind_counterexample:
  "outcome_code (requests (run offline_platform idle_client
      [Request get_patients, Intercept 0]) ! 0) = Some (JStr ''CLIENT_ERROR'')
   \<and> outcome_code (requests (run offline_platform idle_client
      [Request get_patients, Intercept 0]) ! 0) \<noteq> Some (JStr ''NETWORK_ERROR'')"
  by (simp add: client_simps storage_simps sample_client_simps offline_platform_def
      outcome_code_def)



text \<open>
  When the backend rejects the first deletion, the \<^verbatim>\<open>catch\<close> block itself throws: the
  flag is still cleared, and the caller gets the storage error.
\<close>

lemma catch_deletion_rejected:
  assumes "element (requests c) i = Some DeletingAuthToken"
    and "backend_rejects P DeleteOp (KEY_PREFIX @ ''auth_token'')"
  shows "step P c (StorageDone i)
    = finallyBlock (set_request c i
        (Done (Inl (Thrown (Error ''Failed to delete secure data for key: auth_token'')))))"
  using assms
  by (cases "OS_is_web P")
    (simp_all add: step_def storageDone_def deleteItem_def deleteItem_try_def Let_def
      backend_rejects_def SecureStore_deleteItemAsync_def AsyncStorage_removeItem_def)

subsection \<open>Single flight\<close>

lemma awaited_iff: "awaited rs W \<longleftrightarrow> (\<forall>j<length rs. waiting (rs ! j) \<longrightarrow> j \<in> W)"
  by (auto simp: awaited_def list_all_iff)

lemma awaited_update:
  assumes "awaited xs W" and "\<not> waiting v"
  shows "awaited (xs[i := v]) W"
proof -
  have "waiting (xs[i := v] ! j) \<longrightarrow> j \<in> W" if "j < length xs" for j
    using assms that by (cases "j = i") (auto simp: awaited_iff)
  then show ?thesis by (simp add: awaited_iff)
qed

lemma not_in_handler_agrees: "\<not> in_handler r \<Longrightarrow> agrees ph r"
  by (cases r) simp_all

lemma not_in_handler_not_waiting: "\<not> in_handler r \<Longrightarrow> \<not> waiting r"
  by (cases r) simp_all

lemma episode_iff:
  "episode n m c \<longleftrightarrow> before_refresh n m c \<or> (\<exists>call. in_episode n m c call)"
  by (auto simp: episode_def in_episode_def)

lemma episode_bounds:
  assumes "episode n m c"
  shows "length (promises c) \<le> Suc n" and "length (refreshPosts c) \<le> Suc m"
  using assms by (auto simp: episode_def before_refresh_def in_episode_def)

lemma in_episode_storage [simp]: "in_episode n m (c\<lparr>storage := w\<rparr>) call = in_episode n m c call"
  by (simp add: in_episode_def)

lemma before_refresh_storage [simp]: "before_refresh n m (c\<lparr>storage := w\<rparr>) = before_refresh n m c"
  by (simp add: before_refresh_def quiet_def)

lemma before_refresh_set_request:
  assumes "before_refresh n m c" and "\<not> in_handler r" and "has_headers r"
  shows "before_refresh n m (set_request c i r)"
  using assms by (simp add: before_refresh_def quiet_def list_all_update)

lemma in_episode_set_request:
  assumes "in_episode n m c call" and "agrees (phase call) r" and "has_headers r"
    and "\<not> waiting r"
  shows "in_episode n m (set_request c i r) call"
  using assms by (simp add: in_episode_def list_all_update awaited_update)

lemma in_episode_finallyBlock:
  assumes "in_episode n m c call" and "\<not> pending (phase call)"
  shows "in_episode n m (finallyBlock c) call"
  using assms by (simp add: in_episode_def)

lemma normalized_simps [simp]:
  "agrees ph (normalized P err)" "\<not> in_handler (normalized P err)"
  "has_headers (normalized P err)" "\<not> waiting (normalized P err)"
  by (simp_all add: normalized_def)

text \<open>A request is added.\<close>

lemma step_Request:
  assumes "headers cfg \<noteq> None"
  shows "before_refresh n m c \<Longrightarrow> before_refresh n m (step P c (Request cfg))"
    and "in_episode n m c call \<Longrightarrow> in_episode n m (step P c (Request cfg)) call"
  using assms
  by (auto simp: step_def before_refresh_def quiet_def in_episode_def awaited_iff nth_append)

lemma requestFulfilled_Thrown:
  "requestFulfilled P w cfg = (Inl err, w') \<Longrightarrow> \<exists>e. err = Thrown e"
  unfolding requestFulfilled_def Let_def
  by (auto split: prod.splits sum.splits option.splits if_splits)

lemma headers_set_header_Some [simp]:
  "headers cfg = Some h \<Longrightarrow> headers (set_header cfg n v) = Some (h(n \<mapsto> v))"
  by (simp add: set_header_def)

lemma requestFulfilled_headers:
  "requestFulfilled P w cfg = (Inr cfg', w') \<Longrightarrow> headers cfg \<noteq> None \<Longrightarrow> headers cfg' \<noteq> None"
  unfolding requestFulfilled_def Let_def
  by (auto split: prod.splits sum.splits option.splits if_splits)

text \<open>The request interceptor runs: the request is dispatched or ends with an error.\<close>

lemma intercept_cases:
  assumes "element (requests c) i = Some (Intercepting cfg)" and "headers cfg \<noteq> None"
  shows "\<exists>w r. step P c (Intercept i) = set_request (c\<lparr>storage := w\<rparr>) i r
           \<and> \<not> in_handler r \<and> has_headers r"
proof -
  obtain res w where rf: "requestFulfilled P (storage c) cfg = (res, w)"
    by (cases "requestFulfilled P (storage c) cfg")
  show ?thesis
  proof (cases res)
    case (Inl err)
    then obtain e where "err = Thrown e"
      using rf requestFulfilled_Thrown by blast
    with assms rf Inl
    have "step P c (Intercept i) = set_request (c\<lparr>storage := w\<rparr>) i (normalized P (Thrown e))"
      by (simp add: step_def intercept_def responseRejected_Thrown)
    then show ?thesis by (intro exI [of _ w] exI [of _ "normalized P (Thrown e)"]) simp
  next
    case (Inr cfg')
    with rf have h: "headers cfg' \<noteq> None"
      using requestFulfilled_headers [of P "storage c" cfg cfg' w] assms(2) by simp
    from assms rf Inr
    have "step P c (Intercept i) = set_request (c\<lparr>storage := w\<rparr>) i (InFlight cfg')"
      by (simp add: step_def intercept_def)
    with h show ?thesis by (intro exI [of _ w] exI [of _ "InFlight cfg'"]) simp
  qed
qed

lemma intercept_other:
  assumes "\<And>cfg. element (requests c) i \<noteq> Some (Intercepting cfg)"
  shows "step P c (Intercept i) = c"
proof (cases "element (requests c) i")
  case None
  then show ?thesis by (simp add: step_def intercept_def)
next
  case (Some r)
  with assms show ?thesis by (cases r) (auto simp: step_def intercept_def)
qed

lemma step_Intercept:
  shows "before_refresh n m c \<Longrightarrow> before_refresh n m (step P c (Intercept i))"
    and "in_episode n m c call \<Longrightarrow> in_episode n m (step P c (Intercept i)) call"
proof -
  show "before_refresh n m (step P c (Intercept i))" if a: "before_refresh n m c"
  proof (cases "\<exists>cfg. element (requests c) i = Some (Intercepting cfg)")
    case False
    then show ?thesis using a intercept_other [of c i P] by simp
  next
    case True
    then obtain cfg where e: "element (requests c) i = Some (Intercepting cfg)" ..
    have h: "headers cfg \<noteq> None"
      using a list_all_element [OF _ e, of has_headers]
      by (auto simp: before_refresh_def quiet_def)
    from intercept_cases [OF e h, of P] a show ?thesis
      by (auto simp: before_refresh_set_request)
  qed
  show "in_episode n m (step P c (Intercept i)) call" if a: "in_episode n m c call"
  proof (cases "\<exists>cfg. element (requests c) i = Some (Intercepting cfg)")
    case False
    then show ?thesis using a intercept_other [of c i P] by simp
  next
    case True
    then obtain cfg where e: "element (requests c) i = Some (Intercepting cfg)" ..
    have h: "headers cfg \<noteq> None"
      using a list_all_element [OF _ e, of has_headers]
      by (auto simp: in_episode_def)
    from intercept_cases [OF e h, of P] a show ?thesis
      by (auto simp: in_episode_set_request not_in_handler_agrees not_in_handler_not_waiting)
  qed
qed

text \<open>The first 401 of the episode: the handler starts the refresh.\<close>

lemma startRefresh_before:
  assumes "before_refresh n m c" and "element (requests c) i = Some (InFlight cfg)"
  shows "in_episode n m (startRefresh c i (cfg\<lparr>retry := True\<rparr>))
           \<lparr>phase = ReadingRefreshToken, waiters = [i]\<rparr>"
    and "served n (startRefresh c i (cfg\<lparr>retry := True\<rparr>)) i"
proof -
  have n: "length (promises c) = n" and m: "length (refreshPosts c) = m" and q: "quiet c"
    using assms(1) by (simp_all add: before_refresh_def)
  have h: "headers cfg \<noteq> None"
    using q list_all_element [OF _ assms(2), of has_headers] by (auto simp: quiet_def)
  have i: "i < length (requests c)" using assms(2) by (simp add: element_iff)
  have ag: "list_all (agrees ReadingRefreshToken) (requests c)"
    using q by (auto simp: quiet_def list_all_iff intro: not_in_handler_agrees)
  have aw: "awaited ((requests c)[i := AwaitingRefresh (cfg\<lparr>retry := True\<rparr>) False]) {i}"
  proof -
    have "\<not> waiting (requests c ! j)" if "j < length (requests c)" for j
      using q that by (auto simp: quiet_def list_all_length dest: not_in_handler_not_waiting)
    then show ?thesis
      using i by (auto simp: awaited_iff nth_list_update)
  qed
  have old: "list_all (\<lambda>call. \<not> pending (phase call)) (take n (promises c))"
    using q n by (simp add: quiet_def)
  show "in_episode n m (startRefresh c i (cfg\<lparr>retry := True\<rparr>))
           \<lparr>phase = ReadingRefreshToken, waiters = [i]\<rparr>"
    using q h ag aw old m
    by (simp add: in_episode_def startRefresh_def quiet_def list_all_update n [symmetric])
  show "served n (startRefresh c i (cfg\<lparr>retry := True\<rparr>)) i"
    using i by (simp add: served_def startRefresh_def element_update n [symmetric])
qed

text \<open>A first 401 while the refresh is outstanding: the handler joins the waiters.\<close>

lemma join_in_episode:
  assumes "in_episode n m c call" and "pending (phase call)"
    and "element (requests c) i = Some (InFlight cfg)"
  shows "in_episode n m
           (set_request (c\<lparr>promises := (promises c)[n := call\<lparr>waiters := waiters call @ [i]\<rparr>]\<rparr>)
              i (AwaitingRefresh (cfg\<lparr>retry := True\<rparr>) True))
           (call\<lparr>waiters := waiters call @ [i]\<rparr>)"
    and "served n
           (set_request (c\<lparr>promises := (promises c)[n := call\<lparr>waiters := waiters call @ [i]\<rparr>]\<rparr>)
              i (AwaitingRefresh (cfg\<lparr>retry := True\<rparr>) True)) i"
proof -
  have h: "headers cfg \<noteq> None"
    using assms(1) list_all_element [OF _ assms(3), of has_headers]
    by (auto simp: in_episode_def)
  have i: "i < length (requests c)" using assms(3) by (simp add: element_iff)
  have n: "length (promises c) = Suc n" using assms(1) by (simp add: in_episode_def)
  have "awaited ((requests c)[i := AwaitingRefresh (cfg\<lparr>retry := True\<rparr>) True])
          (set (waiters call @ [i]))"
    using assms(1) i by (auto simp: in_episode_def awaited_iff nth_list_update)
  then show "in_episode n m
           (set_request (c\<lparr>promises := (promises c)[n := call\<lparr>waiters := waiters call @ [i]\<rparr>]\<rparr>)
              i (AwaitingRefresh (cfg\<lparr>retry := True\<rparr>) True))
           (call\<lparr>waiters := waiters call @ [i]\<rparr>)"
    using assms(1,2) h by (simp add: in_episode_def list_all_update)
  show "served n
           (set_request (c\<lparr>promises := (promises c)[n := call\<lparr>waiters := waiters call @ [i]\<rparr>]\<rparr>)
              i (AwaitingRefresh (cfg\<lparr>retry := True\<rparr>) True)) i"
    using i n assms(2)
    by (cases "phase call") (simp_all add: served_def element_update)
qed

text \<open>The adapter reports for a request.\<close>

lemma deliver_other:
  assumes "\<And>cfg. element (requests c) i \<noteq> Some (InFlight cfg)"
  shows "step P c (Deliver i res) = c" and "\<not> first_401 c (Deliver i res)"
proof -
  show "step P c (Deliver i res) = c"
  proof (cases "element (requests c) i")
    case None
    then show ?thesis by (simp add: step_def deliver_def)
  next
    case (Some r)
    with assms show ?thesis by (cases r) (auto simp: step_def deliver_def)
  qed
  show "\<not> first_401 c (Deliver i res)"
    using assms
    by (auto simp: first_401_def split: adapter_result.splits option.splits request_state.splits)
qed

lemma deliver_plain:
  assumes "element (requests c) i = Some (InFlight cfg)"
    and "\<not> first_401 c (Deliver i res)"
  shows "\<exists>r. step P c (Deliver i res) = set_request c i r
           \<and> \<not> in_handler r \<and> has_headers r"
proof (cases res)
  case (HttpResponse st body)
  with assms have "st \<noteq> 401 \<or> retry cfg"
    by (auto simp: first_401_def)
  with assms(1) HttpResponse show ?thesis
    by (auto simp: step_def deliver_def responseRejected_def Let_def
        intro: exI [of _ "normalized P err" for err] exI [of _ "Done x" for x])
next
  case (NoResponse ec)
  with assms(1) show ?thesis
    by (auto simp: step_def deliver_def responseRejected_def
        intro: exI [of _ "normalized P err" for err])
qed

lemma first_401_cases:
  assumes "first_401 c (Deliver i res)"
  shows "\<exists>cfg body. element (requests c) i = Some (InFlight cfg) \<and> \<not> retry cfg
           \<and> res = HttpResponse 401 body"
  using assms
  by (auto simp: first_401_def split: adapter_result.splits option.splits request_state.splits)

lemma step_Deliver:
  assumes "episode n m c" and "in_window n c (Deliver i res)"
  shows "episode n m (step P c (Deliver i res))"
    and "first_401 c (Deliver i res) \<Longrightarrow> served n (step P c (Deliver i res)) i"
proof -
  have "episode n m (step P c (Deliver i res))
      \<and> (first_401 c (Deliver i res) \<longrightarrow> served n (step P c (Deliver i res)) i)"
  proof (cases "first_401 c (Deliver i res)")
    case False
    have "episode n m (step P c (Deliver i res))"
    proof (cases "\<exists>cfg. element (requests c) i = Some (InFlight cfg)")
      case no: False
      then show ?thesis using assms(1) deliver_other(1) [of c i P res] by simp
    next
      case True
      then obtain cfg where e: "element (requests c) i = Some (InFlight cfg)" ..
      from deliver_plain [OF e False, of P] obtain r
        where s: "step P c (Deliver i res) = set_request c i r"
          and r: "\<not> in_handler r" "has_headers r"
        by blast
      from assms(1) show ?thesis
        unfolding s episode_iff
        using r before_refresh_set_request [of n m c r i]
          in_episode_set_request [of n m c _ r i]
          not_in_handler_agrees [OF r(1)] not_in_handler_not_waiting [OF r(1)]
        by blast
    qed
    with False show ?thesis by simp
  next
    case True
    from first_401_cases [OF True] obtain cfg body
      where e: "element (requests c) i = Some (InFlight cfg)" and u: "\<not> retry cfg"
        and res: "res = HttpResponse 401 body"
      by blast
    from assms(1) [unfolded episode_iff] show ?thesis
    proof
      assume b: "before_refresh n m c"
      then have idle: "\<not> isRefreshingToken c"
        by (simp add: before_refresh_def quiet_def)
      have "step P c (Deliver i res) = startRefresh c i (cfg\<lparr>retry := True\<rparr>)"
        using e u res idle by (simp add: step_def deliver_def responseRejected_def)
      with startRefresh_before [OF b e] show ?thesis
        by (auto simp: episode_iff)
    next
      assume "\<exists>call. in_episode n m c call"
      then obtain call where a: "in_episode n m c call" ..
      then have el: "element (promises c) n = Some call"
        and len: "length (promises c) = Suc n"
        by (simp_all add: in_episode_def element_iff)
      with assms(2) True have flag: "isRefreshingToken c"
        by (simp add: in_window_def)
      then have var: "tokenRefreshPromise c = Some n"
        using a by (auto simp: in_episode_def)
      have h: "headers cfg \<noteq> None"
        using a list_all_element [OF _ e, of has_headers] by (auto simp: in_episode_def)
      have i: "i < length (requests c)" using e by (simp add: element_iff)
      let ?cfg = "cfg\<lparr>retry := True\<rparr>"
      show ?thesis
      proof (cases "phase call")
        case (Resolved t)
        then have t: "t \<noteq> []" using a by (auto simp: in_episode_def)
        have s: "step P c (Deliver i res)
            = finallyBlock (set_request c i
                (Intercepting (set_header ?cfg ''Authorization'' (''Bearer '' @ t))))"
          using e u res flag var el Resolved t h i
          by (simp add: step_def deliver_def responseRejected_def resume_def replay_def
              element_update set_request_def)
        have "in_episode n m (step P c (Deliver i res)) call"
          unfolding s
          by (rule in_episode_finallyBlock, rule in_episode_set_request)
            (use a h Resolved in simp_all)
        moreover have "served n (step P c (Deliver i res)) i"
          using i len el Resolved h
          by (auto simp: s served_def element_update set_header_def)
        ultimately show ?thesis
          by (auto simp: episode_iff)
      next
        case (Rejected r)
        have s: "step P c (Deliver i res) = set_request c i DeletingAuthToken"
          using e u res flag var el Rejected i
          by (simp add: step_def deliver_def responseRejected_def resume_def
              element_update set_request_def)
        have "in_episode n m (step P c (Deliver i res)) call"
          unfolding s by (rule in_episode_set_request) (use a Rejected in simp_all)
        moreover have "served n (step P c (Deliver i res)) i"
          using i len el Rejected by (simp add: s served_def element_update)
        ultimately show ?thesis
          by (auto simp: episode_iff)
      next
        case ReadingRefreshToken
        then have pend: "pending (phase call)" by simp
        have "step P c (Deliver i res)
            = set_request (c\<lparr>promises := (promises c)[n := call\<lparr>waiters := waiters call @ [i]\<rparr>]\<rparr>)
                i (AwaitingRefresh ?cfg True)"
          using e u res flag var el ReadingRefreshToken
          by (simp add: step_def deliver_def responseRejected_def)
        with join_in_episode [OF a pend e] show ?thesis
          by (auto simp: episode_iff)
      next
        case (Posting rt)
        then have pend: "pending (phase call)" by simp
        have "step P c (Deliver i res)
            = set_request (c\<lparr>promises := (promises c)[n := call\<lparr>waiters := waiters call @ [i]\<rparr>]\<rparr>)
                i (AwaitingRefresh ?cfg True)"
          using e u res flag var el Posting
          by (simp add: step_def deliver_def responseRejected_def)
        with join_in_episode [OF a pend e] show ?thesis
          by (auto simp: episode_iff)
      next
        case (StoringToken t)
        then have pend: "pending (phase call)" by simp
        have "step P c (Deliver i res)
            = set_request (c\<lparr>promises := (promises c)[n := call\<lparr>waiters := waiters call @ [i]\<rparr>]\<rparr>)
                i (AwaitingRefresh ?cfg True)"
          using e u res flag var el StoringToken
          by (simp add: step_def deliver_def responseRejected_def)
        with join_in_episode [OF a pend e] show ?thesis
          by (auto simp: episode_iff)
      qed
    qed
  qed
  then show "episode n m (step P c (Deliver i res))"
    and "first_401 c (Deliver i res) \<Longrightarrow> served n (step P c (Deliver i res)) i"
    by simp_all
qed

text \<open>A deletion of the \<^verbatim>\<open>catch\<close> block completes.\<close>

lemma step_StorageDone:
  shows "before_refresh n m c \<Longrightarrow> before_refresh n m (step P c (StorageDone i))"
    and "in_episode n m c call \<Longrightarrow> in_episode n m (step P c (StorageDone i)) call"
proof -
  show "before_refresh n m (step P c (StorageDone i))" if a: "before_refresh n m c"
  proof (cases "element (requests c) i")
    case None
    with a show ?thesis by (simp add: step_def storageDone_def)
  next
    case (Some r)
    then have "\<not> in_handler r"
      using a list_all_element [OF _ Some, of "\<lambda>r. \<not> in_handler r"]
      by (simp add: before_refresh_def quiet_def)
    with Some a show ?thesis
      by (cases r) (simp_all add: step_def storageDone_def)
  qed
  show "in_episode n m (step P c (StorageDone i)) call" if a: "in_episode n m c call"
  proof (cases "element (requests c) i")
    case None
    with a show ?thesis by (simp add: step_def storageDone_def)
  next
    case (Some r)
    then have f: "agrees (phase call) r"
      using a list_all_element [OF _ Some, of "agrees (phase call)"]
      by (simp add: in_episode_def)
    show ?thesis
    proof (cases "r = DeletingAuthToken \<or> r = DeletingRefreshToken")
      case False
      with Some a show ?thesis
        by (cases r) (simp_all add: step_def storageDone_def)
    next
      case True
      with f obtain rej where ph: "phase call = Rejected rej"
        by (auto split: refresh_phase.splits)
      then have np: "\<not> pending (phase call)" by simp
      have fin: "in_episode n m (finallyBlock (set_request (c\<lparr>storage := w\<rparr>) i (Done x))) call"
        for w x
        by (rule in_episode_finallyBlock [OF _ np], rule in_episode_set_request)
          (use a in simp_all)
      have nxt: "in_episode n m (set_request (c\<lparr>storage := w\<rparr>) i DeletingRefreshToken) call"
        for w
        by (rule in_episode_set_request) (use a ph in simp_all)
      from True show ?thesis
      proof
        assume "r = DeletingAuthToken"
        with Some fin nxt show ?thesis
          by (auto simp: step_def storageDone_def split: prod.splits sum.splits)
      next
        assume "r = DeletingRefreshToken"
        with Some fin show ?thesis
          by (auto simp: step_def storageDone_def split: prod.splits sum.splits)
      qed
    qed
  qed
qed

text \<open>The promise of the refresh settles and its waiters continue.\<close>

lemma agrees_resumed:
  assumes "agrees ph r" and "pending ph"
  shows "agrees (case outcome of Inl x \<Rightarrow> Rejected x | Inr t \<Rightarrow> Resolved t) (resumed outcome r)"
  using assms by (cases r; cases outcome; cases ph) simp_all

lemma settle_episode:
  assumes "in_episode n m c call" and "pending (phase call)"
    and "usable outcome (requests c)"
    and "case outcome of Inl r \<Rightarrow> True | Inr t \<Rightarrow> posted (phase call)"
  shows "in_episode n m (settle (c\<lparr>storage := w\<rparr>) n outcome)
           \<lparr>phase = (case outcome of Inl r \<Rightarrow> Rejected r | Inr t \<Rightarrow> Resolved t),
            waiters = []\<rparr>"
    and "requests (settle (c\<lparr>storage := w\<rparr>) n outcome) = map (resumed outcome) (requests c)"
    and "settled_with n (settle (c\<lparr>storage := w\<rparr>) n outcome) outcome"
    and "refreshPosts (settle (c\<lparr>storage := w\<rparr>) n outcome) = refreshPosts c"
proof -
  let ?ph = "case outcome of Inl r \<Rightarrow> Rejected r | Inr t \<Rightarrow> Resolved t"
  let ?settled = "\<lparr>phase = ?ph, waiters = []\<rparr>"
  let ?c' = "settle (c\<lparr>storage := w\<rparr>) n outcome"
  have len: "length (promises c) = Suc n" and call: "promises c ! n = call"
    using assms(1) by (simp_all add: in_episode_def)
  then have el: "element (promises (c\<lparr>storage := w\<rparr>)) n = Some call"
    by (simp add: element_iff)
  have u: "usable outcome (requests (c\<lparr>storage := w\<rparr>))"
    using assms(3) by simp
  note f = settle_fields [OF el u]
  have old: "has_headers (requests c ! j)" "agrees (phase call) (requests c ! j)"
    "waiting (requests c ! j) \<longrightarrow> j \<in> set (waiters call)"
    if "j < length (requests c)" for j
    using assms(1) that by (auto simp: in_episode_def list_all_length awaited_iff)
  have "(if j \<in> set (waiters call) then resumed outcome (requests c ! j) else requests c ! j)
      = resumed outcome (requests c ! j)" if "j < length (requests c)" for j
    using old(3) [OF that] by (auto simp: resumed_not_waiting)
  then have "map (\<lambda>j. if j \<in> set (waiters call) then resumed outcome (requests c ! j)
                  else requests c ! j) [0..<length (requests c)]
      = map (\<lambda>j. resumed outcome (requests c ! j)) [0..<length (requests c)]"
    by simp
  also have "\<dots> = map (resumed outcome) (map (\<lambda>j. requests c ! j) [0..<length (requests c)])"
    by simp
  also have "\<dots> = map (resumed outcome) (requests c)"
    by (simp only: map_nth)
  finally show rq: "requests ?c' = map (resumed outcome) (requests c)"
    using f(1) by (simp cong: if_cong)
  show posts: "refreshPosts ?c' = refreshPosts c"
    using f(3) by simp
  have pr: "promises ?c' = (promises c)[n := ?settled]"
    using f(2) by simp
  show "settled_with n ?c' outcome"
    using len by (simp add: settled_with_def pr element_update)
  have new: "has_headers (requests ?c' ! j) \<and> agrees ?ph (requests ?c' ! j)
      \<and> \<not> waiting (requests ?c' ! j)" if j: "j < length (requests c)" for j
    using old [OF j] j assms(2) has_headers_resumed not_waiting_resumed
      agrees_resumed [of "phase call" "requests c ! j" outcome]
    by (simp add: rq)
  have "list_all has_headers (requests ?c')"
    "list_all (agrees ?ph) (requests ?c')" "awaited (requests ?c') {}"
    using new by (simp_all add: list_all_length awaited_iff rq)
  moreover have "\<not> pending ?ph" "?ph \<noteq> ReadingRefreshToken" "?ph \<noteq> StoringToken []"
    by (simp_all split: sum.splits)
  moreover have "?ph \<noteq> Resolved []"
    using assms(3) by (auto simp: usable_def split: sum.splits)
  moreover have "\<not> posted ?ph \<or> length (refreshPosts c) = Suc m"
    using assms(1,4) by (auto simp: in_episode_def split: sum.splits)
  moreover have "\<not> isRefreshingToken ?c' \<or> tokenRefreshPromise ?c' = Some n"
    using f(5) assms(1) by (auto simp: in_episode_def)
  ultimately show "in_episode n m ?c' ?settled"
    using assms(1) len by (simp add: in_episode_def pr posts)
qed

text \<open>The three completions inside \<^verbatim>\<open>refreshToken\<close>.\<close>

lemma agrees_pending:
  assumes "agrees ph r" and "pending ph" and "pending ph'"
  shows "agrees ph' r"
  using assms by (cases r; cases ph; cases ph') simp_all

lemma in_episode_phase:
  assumes "in_episode n m c call" and "pending (phase call)" and "pending ph"
    and "ph \<noteq> ReadingRefreshToken" and "ph \<noteq> StoringToken []"
    and "length posts = Suc m"
  shows "in_episode n m (c\<lparr>storage := w, refreshPosts := posts,
            promises := (promises c)[n := call\<lparr>phase := ph\<rparr>]\<rparr>) (call\<lparr>phase := ph\<rparr>)"
proof -
  have "list_all (agrees ph) (requests c)"
    using assms(1,2,3) by (auto simp: in_episode_def list_all_iff intro: agrees_pending)
  moreover have "ph \<noteq> Resolved []"
    using assms(3) by auto
  ultimately show ?thesis
    using assms by (simp add: in_episode_def)
qed

lemma refresh_index_cases:
  assumes "refresh_index ev = Some p"
  shows "ev = RefreshRead p \<or> (\<exists>res. ev = RefreshResponse p res) \<or> ev = RefreshStored p"
  using assms by (cases ev) simp_all

lemma refresh_noop:
  assumes "refresh_index ev = Some p"
    and "\<And>call. element (promises c) p = Some call \<Longrightarrow> \<not> pending (phase call)"
  shows "step P c ev = c"
proof (cases "element (promises c) p")
  case None
  with refresh_index_cases [OF assms(1)] show ?thesis
    by (auto simp: step_def refreshRead_def refreshResponse_def refreshStored_def)
next
  case (Some call)
  with assms(2) have "\<not> pending (phase call)" by simp
  with Some refresh_index_cases [OF assms(1)] show ?thesis
    by (cases "phase call")
      (auto simp: step_def refreshRead_def refreshResponse_def refreshStored_def)
qed

lemma refresh_outcome_other:
  assumes "refresh_index ev \<noteq> Some p"
  shows "refresh_outcome P c p ev = None"
  using assms
  by (cases ev)
    (auto simp: refresh_outcome_def split: option.splits refresh_phase.splits sum.splits)

lemma refresh_outcome_settled:
  assumes "\<And>call. element (promises c) p = Some call \<Longrightarrow> \<not> pending (phase call)"
  shows "refresh_outcome P c p ev = None"
proof (cases "refresh_outcome P c p ev")
  case (Some outcome)
  from outcome_facts [OF Some] assms show ?thesis by auto
qed simp

text \<open>A completion that does not settle the promise takes the refresh to its next phase.\<close>

lemma refresh_advance:
  assumes "in_episode n m c call" and "refresh_index ev = Some n"
    and "refresh_outcome P c n ev = None" and "in_window n c ev"
  shows "requests (step P c ev) = requests c"
    and "\<exists>call'. in_episode n m (step P c ev) call'"
proof -
  have len: "length (promises c) = Suc n" and call: "promises c ! n = call"
    using assms(1) by (simp_all add: in_episode_def)
  then have el: "element (promises c) n = Some call"
    by (simp add: element_iff)
  have "requests (step P c ev) = requests c \<and> (\<exists>call'. in_episode n m (step P c ev) call')"
    using refresh_index_cases [OF assms(2)]
  proof (elim disjE exE)
    assume ev: "ev = RefreshRead n"
    show ?thesis
    proof (cases "phase call = ReadingRefreshToken")
      case False
      then have "step P c ev = c"
        using el ev by (cases "phase call") (simp_all add: step_def refreshRead_def)
      with assms(1) show ?thesis by auto
    next
      case True
      then have pend: "pending (phase call)" and posts: "length (refreshPosts c) = m"
        using assms(1) by (simp_all add: in_episode_def)
      obtain res w where g: "getItem P (storage c) ''refresh_token'' = (res, w)"
        by (cases "getItem P (storage c) ''refresh_token''")
      with assms(3) el ev True obtain rt where res: "res = Inr rt" and t: "truthy_str rt"
        by (auto simp: refresh_outcome_def split: sum.splits if_splits)
      have s: "step P c ev = c\<lparr>storage := w, refreshPosts := refreshPosts c @ [the rt],
              promises := (promises c)[n := call\<lparr>phase := Posting (the rt)\<rparr>]\<rparr>"
        using el ev True g res t by (simp add: step_def refreshRead_def)
      have "in_episode n m (c\<lparr>storage := w, refreshPosts := refreshPosts c @ [the rt],
              promises := (promises c)[n := call\<lparr>phase := Posting (the rt)\<rparr>]\<rparr>)
              (call\<lparr>phase := Posting (the rt)\<rparr>)"
        by (rule in_episode_phase [OF assms(1) pend]) (simp_all add: posts)
      then show ?thesis
        unfolding s by auto
    qed
  next
    fix res
    assume ev: "ev = RefreshResponse n res"
    show ?thesis
    proof (cases "phase call")
      case (Posting rt)
      then have pend: "pending (phase call)" by simp
      from assms(3) el ev Posting obtain token where res: "res = Inr token"
        by (auto simp: refresh_outcome_def split: sum.splits)
      with assms(4) ev have ne: "token \<noteq> []" by (simp add: in_window_def)
      have s: "step P c ev = c\<lparr>storage := storage c, refreshPosts := refreshPosts c,
              promises := (promises c)[n := call\<lparr>phase := StoringToken token\<rparr>]\<rparr>"
        using el ev Posting res by (simp add: step_def refreshResponse_def)
      have "in_episode n m (c\<lparr>storage := storage c, refreshPosts := refreshPosts c,
              promises := (promises c)[n := call\<lparr>phase := StoringToken token\<rparr>]\<rparr>)
              (call\<lparr>phase := StoringToken token\<rparr>)"
        by (rule in_episode_phase [OF assms(1) pend])
          (use ne assms(1) Posting in \<open>simp_all add: in_episode_def\<close>)
      then show ?thesis
        unfolding s by auto
    qed (use el ev assms(1) in \<open>auto simp: step_def refreshResponse_def\<close>)
  next
    assume ev: "ev = RefreshStored n"
    show ?thesis
    proof (cases "phase call")
      case (StoringToken token)
      with assms(3) el ev show ?thesis
        by (auto simp: refresh_outcome_def split: sum.splits)
    qed (use el ev assms(1) in \<open>auto simp: step_def refreshStored_def\<close>)
  qed
  then show "requests (step P c ev) = requests c"
    and "\<exists>call'. in_episode n m (step P c ev) call'"
    by simp_all
qed

text \<open>
  A completion inside \<^verbatim>\<open>refreshToken\<close>: the episode goes on, and when the refresh is
  completed every waiting request is resumed with its outcome.
\<close>

lemma step_refresh:
  assumes "episode n m c" and "refresh_index ev = Some p" and "in_window n c ev"
  shows "episode n m (step P c ev)"
    and "case refresh_outcome P c n ev of
           None \<Rightarrow> requests (step P c ev) = requests c
         | Some outcome \<Rightarrow>
             requests (step P c ev) = map (resumed outcome) (requests c)
             \<and> settled_with n (step P c ev) outcome
             \<and> (case outcome of Inl r \<Rightarrow> True
                | Inr t \<Rightarrow> length (refreshPosts (step P c ev)) = Suc m)"
proof -
  let ?goal = "episode n m (step P c ev) \<and>
      (case refresh_outcome P c n ev of
           None \<Rightarrow> requests (step P c ev) = requests c
         | Some outcome \<Rightarrow>
             requests (step P c ev) = map (resumed outcome) (requests c)
             \<and> settled_with n (step P c ev) outcome
             \<and> (case outcome of Inl r \<Rightarrow> True
                | Inr t \<Rightarrow> length (refreshPosts (step P c ev)) = Suc m))"
  from assms(1) [unfolded episode_iff] have ?goal
  proof
    assume b: "before_refresh n m c"
    have np: "\<not> pending (phase call)" if "element (promises c) q = Some call" for q call
      using b list_all_element [OF _ that, of "\<lambda>call. \<not> pending (phase call)"]
      by (simp add: before_refresh_def quiet_def)
    have "step P c ev = c"
      by (rule refresh_noop [OF assms(2)]) (rule np)
    moreover have "refresh_outcome P c n ev = None"
      by (rule refresh_outcome_settled) (rule np)
    ultimately show ?goal using assms(1) by simp
  next
    assume "\<exists>call. in_episode n m c call"
    then obtain call where a: "in_episode n m c call" ..
    have len: "length (promises c) = Suc n" and call: "promises c ! n = call"
      using a by (simp_all add: in_episode_def)
    then have el: "element (promises c) n = Some call"
      by (simp add: element_iff)
    show ?goal
    proof (cases "p = n")
      case False
      have np: "\<not> pending (phase call')" if "element (promises c) p = Some call'" for call'
      proof -
        from that have "p < Suc n" and c': "promises c ! p = call'"
          using len by (simp_all add: element_iff)
        with False have p: "p < n" by simp
        have "list_all (\<lambda>call. \<not> pending (phase call)) (take n (promises c))"
          using a by (simp add: in_episode_def)
        then have "\<not> pending (phase (take n (promises c) ! p))"
          using p len by (simp add: list_all_length)
        with p c' show ?thesis by simp
      qed
      have "step P c ev = c"
        by (rule refresh_noop [OF assms(2)]) (rule np)
      moreover have "refresh_outcome P c n ev = None"
        by (rule refresh_outcome_other) (use assms(2) False in simp)
      ultimately show ?goal using assms(1) by simp
    next
      case True
      show ?goal
      proof (cases "refresh_outcome P c n ev")
        case None
        with refresh_advance [OF a _ None assms(3)] assms(2) True show ?goal
          by (auto simp: episode_iff)
      next
        case (Some outcome)
        from outcome_facts [OF Some] el
        have pend: "pending (phase call)"
          and tok: "case outcome of Inl r \<Rightarrow> True | Inr t \<Rightarrow> phase call = StoringToken t"
          by auto
        have u: "usable outcome (requests c)"
          using tok a by (auto simp: usable_def in_episode_def split: sum.splits)
        have po: "case outcome of Inl r \<Rightarrow> True | Inr t \<Rightarrow> posted (phase call)"
          using tok by (auto split: sum.splits)
        from step_settles [OF Some] obtain w
          where s: "step P c ev = settle (c\<lparr>storage := w\<rparr>) n outcome" ..
        note se = settle_episode [OF a pend u po, of w]
        have "case outcome of Inl r \<Rightarrow> True
              | Inr t \<Rightarrow> length (refreshPosts (step P c ev)) = Suc m"
          using tok a se(4) by (auto simp: s in_episode_def split: sum.splits)
        with se Some show ?goal
          by (auto simp: s episode_iff)
      qed
    qed
  qed
  then show "episode n m (step P c ev)"
    and "case refresh_outcome P c n ev of
           None \<Rightarrow> requests (step P c ev) = requests c
         | Some outcome \<Rightarrow>
             requests (step P c ev) = map (resumed outcome) (requests c)
             \<and> settled_with n (step P c ev) outcome
             \<and> (case outcome of Inl r \<Rightarrow> True
                | Inr t \<Rightarrow> length (refreshPosts (step P c ev)) = Suc m)"
    by simp_all
qed

text \<open>No step but the completion of the refresh touches the request of a waiting handler.\<close>

lemma resume_frame: "j \<noteq> i \<Longrightarrow> requests (resume c i outcome) ! j = requests c ! j"
  by (auto simp: resume_def replay_def startRefresh_def
      split: option.splits request_state.splits sum.splits)

lemma responseRejected_frame:
  "j \<noteq> i \<Longrightarrow> requests (responseRejected P c i err) ! j = requests c ! j"
  by (auto simp: responseRejected_def Let_def startRefresh_def resume_frame
      split: option.splits refresh_phase.splits)

lemma waiting_frame:
  assumes "refresh_index ev = None" and "j < length (requests c)"
    and "waiting (requests c ! j)"
  shows "requests (step P c ev) ! j = requests c ! j"
proof (cases ev)
  case (Request cfg)
  with assms(2) show ?thesis by (simp add: step_def nth_append)
next
  case (Intercept i)
  show ?thesis
  proof (cases "i = j")
    case True
    have "element (requests c) i \<noteq> Some (Intercepting cfg)" for cfg
      using True assms(2,3) by (auto simp: element_iff)
    then show ?thesis
      using Intercept intercept_other [of c i P] by simp
  next
    case False
    then show ?thesis
      using Intercept
      by (auto simp: step_def intercept_def responseRejected_frame
          split: option.splits request_state.splits prod.splits sum.splits)
  qed
next
  case (Deliver i res)
  show ?thesis
  proof (cases "i = j")
    case True
    have "element (requests c) i \<noteq> Some (InFlight cfg)" for cfg
      using True assms(2,3) by (auto simp: element_iff)
    then show ?thesis
      using Deliver deliver_other(1) [of c i P res] by simp
  next
    case False
    then show ?thesis
      using Deliver
      by (auto simp: step_def deliver_def responseRejected_frame Let_def
          split: option.splits request_state.splits adapter_result.splits)
  qed
next
  case (StorageDone i)
  show ?thesis
  proof (cases "i = j")
    case True
    with assms(2,3) have "element (requests c) i = Some (requests c ! j)"
      by (simp add: element_iff)
    with assms(3) StorageDone show ?thesis
      by (cases "requests c ! j") (simp_all add: step_def storageDone_def)
  next
    case False
    then show ?thesis
      using StorageDone
      by (auto simp: step_def storageDone_def
          split: option.splits request_state.splits prod.splits sum.splits)
  qed
qed (use assms(1) in simp_all)

text \<open>A refresh token is posted only by the step that has read one from the store.\<close>

lemma resume_posts: "refreshPosts (resume c i outcome) = refreshPosts c"
  by (auto simp: resume_def replay_def startRefresh_def
      split: option.splits request_state.splits sum.splits)

lemma resume_all_posts:
  "refreshPosts (foldl (\<lambda>c' i. resume c' i outcome) c ws) = refreshPosts c"
  by (induction ws arbitrary: c) (simp_all add: resume_posts)

lemma settle_posts: "refreshPosts (settle c p outcome) = refreshPosts c"
  by (simp add: settle_def resume_all_posts split: option.splits)

lemma responseRejected_posts: "refreshPosts (responseRejected P c i err) = refreshPosts c"
  by (auto simp: responseRejected_def Let_def startRefresh_def resume_posts
      split: option.splits refresh_phase.splits)

lemma posts_step:
  "refreshPosts (step P c ev) = refreshPosts c
   \<or> (case fst (getItem P (storage c) ''refresh_token'') of
        Inr (Some rt) \<Rightarrow> rt \<noteq> [] \<and> refreshPosts (step P c ev) = refreshPosts c @ [rt]
      | _ \<Rightarrow> False)"
proof (cases ev)
  case (RefreshRead p)
  obtain res w where g: "getItem P (storage c) ''refresh_token'' = (res, w)"
    by (cases "getItem P (storage c) ''refresh_token''")
  then show ?thesis
    using RefreshRead
    by (auto simp: step_def refreshRead_def settle_posts
        split: option.splits refresh_phase.splits sum.splits)
next
  case (Intercept i)
  then show ?thesis
    by (auto simp: step_def intercept_def responseRejected_posts
        split: option.splits request_state.splits prod.splits sum.splits)
next
  case (Deliver i res)
  then show ?thesis
    by (auto simp: step_def deliver_def responseRejected_posts Let_def
        split: option.splits request_state.splits adapter_result.splits)
next
  case (RefreshResponse p res)
  then show ?thesis
    by (auto simp: step_def refreshResponse_def settle_posts
        split: option.splits refresh_phase.splits sum.splits)
next
  case (RefreshStored p)
  then show ?thesis
    by (auto simp: step_def refreshStored_def settle_posts
        split: option.splits refresh_phase.splits prod.splits sum.splits)
next
  case (StorageDone i)
  then show ?thesis
    by (auto simp: step_def storageDone_def
        split: option.splits request_state.splits prod.splits sum.splits)
qed (simp add: step_def)

text \<open>Every event of the episode keeps the discipline.\<close>

lemma step_episode:
  assumes "episode n m c" and "in_window n c ev"
  shows "episode n m (step P c ev)"
proof (cases ev)
  case (Request cfg)
  with assms(2) have "headers cfg \<noteq> None"
    by (simp add: in_window_def)
  with assms(1) Request show ?thesis
    unfolding episode_iff using step_Request by blast
next
  case (Intercept i)
  with assms(1) show ?thesis
    unfolding episode_iff using step_Intercept by blast
next
  case (Deliver i res)
  with assms show ?thesis
    using step_Deliver(1) by blast
next
  case (RefreshRead p)
  with assms show ?thesis
    using step_refresh(1) [of n m c ev p P] by simp
next
  case (RefreshResponse p res)
  with assms show ?thesis
    using step_refresh(1) [of n m c ev p P] by simp
next
  case (RefreshStored p)
  with assms show ?thesis
    using step_refresh(1) [of n m c ev p P] by simp
next
  case (StorageDone i)
  with assms(1) show ?thesis
    unfolding episode_iff using step_StorageDone by blast
qed

lemma step_disciplined:
  assumes "episode n m c" and "in_window n c ev"
  shows "disciplined n m P c ev"
proof -
  let ?c' = "step P c ev"
  have e': "episode n m ?c'"
    by (rule step_episode [OF assms])
  have d2: "case ev of Deliver i res \<Rightarrow> first_401 c ev \<longrightarrow> served n ?c' i | _ \<Rightarrow> True"
  proof (cases ev)
    case (Deliver i res)
    with step_Deliver(2) [of n m c i res P] assms show ?thesis by simp
  qed simp_all
  have d3: "case refresh_outcome P c n ev of
            None \<Rightarrow>
              list_all (\<lambda>j. waiting (requests c ! j) \<longrightarrow> requests ?c' ! j = requests c ! j)
                [0..<length (requests c)]
          | Some outcome \<Rightarrow>
              requests ?c' = map (resumed outcome) (requests c) \<and> settled_with n ?c' outcome
              \<and> (case outcome of Inl r \<Rightarrow> True | Inr t \<Rightarrow> length (refreshPosts ?c') = Suc m)"
  proof (cases "refresh_index ev")
    case None
    then have "refresh_outcome P c n ev = None"
      by (intro refresh_outcome_other) simp
    then show ?thesis
      using waiting_frame [OF None, of _ c P] by (simp add: list_all_iff)
  next
    case (Some p)
    from step_refresh(2) [OF assms(1) Some assms(2), of P] show ?thesis
      by (cases "refresh_outcome P c n ev") (simp_all add: list_all_iff)
  qed
  show ?thesis
    unfolding disciplined_def Let_def
    using episode_bounds [OF e'] d2 d3 posts_step [of P c ev] by blast
qed

lemma run_disciplined:
  assumes "episode n m c" and "timely n P c evs"
  shows "throughout (disciplined n m P) P c evs \<and> episode n m (run P c evs)"
  using assms
proof (induction evs arbitrary: c)
  case Nil
  then show ?case by (simp add: run_def)
next
  case (Cons ev evs)
  from Cons.prems(2) have w: "in_window n c ev" and t: "timely n P (step P c ev) evs"
    by (simp_all add: timely_def)
  have r: "run P c (ev # evs) = run P (step P c ev) evs"
    by (simp add: run_def)
  from Cons.IH [OF step_episode [OF Cons.prems(1) w] t] step_disciplined [OF Cons.prems(1) w]
  show ?case by (simp add: r)
qed

text \<open>
  C1, as the code has it. The client is quiet: no refresh is outstanding and no handler
  waits for one or is still inside its \<^verbatim>\<open>catch\<close> block. From there, along any sequence
  of events in which every first 401 arrives before the refresh of the episode is started
  or while the flag \<^verbatim>\<open>isRefreshingToken\<close> is set, and in which the refresh endpoint does
  not answer with an empty token, every step is disciplined: \<^verbatim>\<open>refreshToken\<close> is called
  at most once and the refresh endpoint at most once; a request that receives its first
  401 is served by that one refresh (it starts the refresh or joins it, and waits; if the
  refresh has failed already, it enters the \<^verbatim>\<open>catch\<close> block at once); when the refresh
  completes, every waiting request is replayed with its token or enters the
  \<^verbatim>\<open>catch\<close> block, the refresh token having been posted exactly once if there is a
  token; until then every waiting request goes on waiting; and no refresh token is posted
  unless one is stored.
\<close>

theorem single_flight_refresh:
  assumes "quiet c" and "timely (length (promises c)) P c evs"
  shows "throughout (disciplined (length (promises c)) (length (refreshPosts c)) P) P c evs
    \<and> length (promises (run P c evs)) \<le> Suc (length (promises c))
    \<and> length (refreshPosts (run P c evs)) \<le> Suc (length (refreshPosts c))"
proof -
  have "episode (length (promises c)) (length (refreshPosts c)) c"
    using assms(1) by (simp add: episode_def before_refresh_def)
  from run_disciplined [OF this assms(2)] show ?thesis
    using episode_bounds by blast
qed

theorem single_flight_refresh_witness:
  "throughout (disciplined 0 0 native_platform) native_platform two_in_flight
     [Deliver 0 (HttpResponse 401 JNull), Deliver 1 (HttpResponse 401 JNull), RefreshRead 0,
      RefreshResponse 0 (Inr ''new''), RefreshStored 0]
   \<and> length (promises (run native_platform two_in_flight
     [Deliver 0 (HttpResponse 401 JNull), Deliver 1 (HttpResponse 401 JNull), RefreshRead 0,
      RefreshResponse 0 (Inr ''new''), RefreshStored 0])) \<le> 1
   \<and> refreshPosts (run native_platform two_in_flight
     [Deliver 0 (HttpResponse 401 JNull), Deliver 1 (HttpResponse 401 JNull), RefreshRead 0,
      RefreshResponse 0 (Inr ''new''), RefreshStored 0]) = [''r1'']
   \<and> map waiting (requests (run native_platform two_in_flight
     [Deliver 0 (HttpResponse 401 JNull), Deliver 1 (HttpResponse 401 JNull), RefreshRead 0,
      RefreshResponse 0 (Inr ''new''), RefreshStored 0])) = [False, False]"
proof -
  have q: "quiet two_in_flight"
    by (simp add: quiet_def two_in_flight_def idle_client_def get_patients_def)
  have n: "length (promises two_in_flight) = 0" "length (refreshPosts two_in_flight) = 0"
    by (simp_all add: two_in_flight_def idle_client_def)
  have t: "timely (length (promises two_in_flight)) native_platform two_in_flight
     [Deliver 0 (HttpResponse 401 JNull), Deliver 1 (HttpResponse 401 JNull), RefreshRead 0,
      RefreshResponse 0 (Inr ''new''), RefreshStored 0]"
    by (simp add: timely_def in_window_def first_401_def client_simps storage_simps
        sample_client_simps)
  have r: "refreshPosts (run native_platform two_in_flight
     [Deliver 0 (HttpResponse 401 JNull), Deliver 1 (HttpResponse 401 JNull), RefreshRead 0,
      RefreshResponse 0 (Inr ''new''), RefreshStored 0]) = [''r1'']"
    "map waiting (requests (run native_platform two_in_flight
     [Deliver 0 (HttpResponse 401 JNull), Deliver 1 (HttpResponse 401 JNull), RefreshRead 0,
      RefreshResponse 0 (Inr ''new''), RefreshStored 0])) = [False, False]"
    by (simp_all add: client_simps storage_simps sample_client_simps)
  from single_flight_refresh [OF q t] r show ?thesis
    by (simp add: n)
qed

text \<open>
  The claim as the specification words it fails: two requests are in flight with the same
  stale token; the 401 of the second arrives after the refresh begun for the first has
  settled, and the refresh endpoint is called a second time.
\<close>

theorem late_401_second_refresh_counterexample:
  "refreshPosts (run native_platform two_in_flight
     [Deliver 0 (HttpResponse 401 JNull), RefreshRead 0, RefreshResponse 0 (Inr ''new''),
      RefreshStored 0, Deliver 1 (HttpResponse 401 JNull), RefreshRead 1]) = [''r1'', ''r1'']
   \<and> length (promises (run native_platform two_in_flight
     [Deliver 0 (HttpResponse 401 JNull), RefreshRead 0, RefreshResponse 0 (Inr ''new''),
      RefreshStored 0, Deliver 1 (HttpResponse 401 JNull), RefreshRead 1])) = 2"
  by (simp add: client_simps storage_simps sample_client_simps)

text \<open>
  A 401 that arrives after the refresh has failed, while the flag is still set: the
  handler finds the rejected promise, enters its \<^verbatim>\<open>catch\<close> block at once, and no
  second refresh is started.
\<close>

lemma late_401_after_rejection:
  "length (promises (run native_platform two_in_flight
     [Deliver 0 (HttpResponse 401 JNull), RefreshRead 0,
      RefreshResponse 0 (Inl (Thrown (Error ''Network Error''))),
      Deliver 1 (HttpResponse 401 JNull)])) = 1
   \<and> requests (run native_platform two_in_flight
     [Deliver 0 (HttpResponse 401 JNull), RefreshRead 0,
      RefreshResponse 0 (Inl (Thrown (Error ''Network Error''))),
      Deliver 1 (HttpResponse 401 JNull)]) = [DeletingAuthToken, DeletingAuthToken]"
  by (simp add: client_simps storage_simps sample_client_simps)

text \<open>
  An empty token from the refresh endpoint is outside the theorem: the follower finds
  \<^verbatim>\<open>newToken\<close> falsy, leaves the \<^verbatim>\<open>if\<close> and starts a refresh of its own.
\<close>

lemma empty_token_second_refresh:
  "refreshPosts (run native_platform two_in_flight
     [Deliver 0 (HttpResponse 401 JNull), Deliver 1 (HttpResponse 401 JNull), RefreshRead 0,
      RefreshResponse 0 (Inr ''''), RefreshStored 0, RefreshRead 1]) = [''r1'', ''r1'']"
  by (simp add: client_simps storage_simps sample_client_simps Let_def set_request_def
      finallyBlock_def)

text \<open>
  The episode has to begin in a quiet client. Here a refresh fails with two handlers
  waiting; the first leaves its \<^verbatim>\<open>catch\<close> block and clears the flag, a third
  request receives a 401 and starts a new refresh, the second handler leaves its
  \<^verbatim>\<open>catch\<close> block and clears the flag again, and the 401 of a fourth request starts
  another refresh while the one before is outstanding.
\<close>

lemma stale_finally_second_refresh:
  "map (\<lambda>call. pending (phase call))
     (promises (run native_platform four_in_flight
       [Deliver 0 (HttpResponse 401 JNull), Deliver 1 (HttpResponse 401 JNull), RefreshRead 0,
        RefreshResponse 0 (Inl (Thrown (Error ''Network Error''))),
        StorageDone 0, StorageDone 0, Deliver 2 (HttpResponse 401 JNull),
        StorageDone 1, StorageDone 1, Deliver 3 (HttpResponse 401 JNull)]))
   = [False, True, True]"
  by (simp add: client_simps storage_simps sample_client_simps four_in_flight_def element_def)

text \<open>With a usable token, both requests are replayed with the token of the one refresh.\<close>

lemma both_replayed_with_new_token:
  "map (\<lambda>r. case r of Intercepting cfg \<Rightarrow> map_option (\<lambda>h. h ''Authorization'') (headers cfg)
                | _ \<Rightarrow> None)
     (requests (run native_platform two_in_flight
       [Deliver 0 (HttpResponse 401 JNull), Deliver 1 (HttpResponse 401 JNull), RefreshRead 0,
        RefreshResponse 0 (Inr ''new''), RefreshStored 0]))
   = [Some (Some ''Bearer new''), Some (Some ''Bearer new'')]
   \<and> refreshPosts (run native_platform two_in_flight
       [Deliver 0 (HttpResponse 401 JNull), Deliver 1 (HttpResponse 401 JNull), RefreshRead 0,
        RefreshResponse 0 (Inr ''new''), RefreshStored 0]) = [''r1'']"
  by (simp add: client_simps storage_simps sample_client_simps)

end
